theory Spec2Isabelle
  imports Main "HOL-Library.Char_ord" "HOL-Library.List_Lexorder"
begin

section \<open>The storage layer\<close>

text \<open>
  \<^verbatim>\<open>dedup_store.py\<close> keeps one SQLite table, \<^verbatim>\<open>processed_events\<close>, with the
  columns \<^verbatim>\<open>topic\<close>, \<^verbatim>\<open>event_id\<close>, \<^verbatim>\<open>first_seen_at\<close> and the primary key
  \<^verbatim>\<open>(topic, event_id)\<close>.  A row is the triple of its columns and a table the list
  of its rows in insertion order.  All three columns are \<^verbatim>\<open>TEXT NOT NULL\<close> and the
  Python parameters are \<^verbatim>\<open>str\<close>, so they are strings.

  A database file holds the table and the write lock.  The code never closes a
  connection that it replaces (\<^verbatim>\<open>initialize\<close> assigns \<^verbatim>\<open>self.db\<close> anew), and it
  leaves the implicit transaction of a failed \<^verbatim>\<open>INSERT\<close> open; a connection
  abandoned in this state keeps the write lock of its file for as long as the process
  lives.  \<open>locked\<close> says that such a connection holds the lock.  The disk maps the
  path of a database file to the file (\<open>None\<close>: there is no such file yet).
\<close>

type_synonym row = "string \<times> string \<times> string"
type_synonym table = "row list"

record dbfile =
  contents :: table
  locked :: bool

type_synonym disk = "string \<Rightarrow> dbfile option"

text \<open>
  The exceptions the code can meet: its own
  \<^verbatim>\<open>RuntimeError("DedupStore not initialized")\<close>, the storage layer's
  \<^verbatim>\<open>IntegrityError\<close> for a primary key that is already there, the error the
  storage layer raises when a statement is run on a connection that has been closed,
  its \<^verbatim>\<open>OperationalError\<close> for a statement on a table that does not exist or for
  an \<^verbatim>\<open>INSERT\<close> into a database that another connection has locked, and the
  \<^verbatim>\<open>ValueError\<close> of \<^verbatim>\<open>asyncio.Queue.task_done\<close> called more often than items
  were put.  Every path is taken to name a file that can be created and opened;
  failures of the machine (a full or unreadable disk) are not modelled.
\<close>

datatype error = NotInitialized | IntegrityError | ConnectionClosed | OperationalError | ValueError

text \<open>
  A connection is closed, or open.  An open connection knows whether it is inside a
  transaction that holds the write lock (it is after an \<^verbatim>\<open>INSERT\<close> that failed on the
  primary key, until its next commit).  On the two names that SQLite gives a private
  database (\<^verbatim>\<open>:memory:\<close> and the empty name) every connection has a database of
  its own, which no other connection sees and which is gone when the connection is:
  an open connection carries the table of that database.  On any other name the
  table is that of the file, and the table carried by the connection is not used.
\<close>

datatype connection = Closed | Open bool table

definition private_path :: "string \<Rightarrow> bool" where
  "private_path path = (path = '':memory:'' \<or> path = [])"

definition row_key :: "row \<Rightarrow> string \<times> string" where
  "row_key r = (fst r, fst (snd r))"

definition has_key :: "table \<Rightarrow> string \<Rightarrow> string \<Rightarrow> bool" where
  "has_key t tp eid = ((tp, eid) \<in> set (map row_key t))"

text \<open>
  \<^verbatim>\<open>await self.db.execute("SELECT ...")\<close>: a query reads the table of the database
  the connection was opened on.  It needs an open connection; another connection's
  write lock does not stop a reader.
\<close>

definition execute_select :: "connection \<Rightarrow> string \<Rightarrow> disk \<Rightarrow> error + table" where
  "execute_select c path d =
     (case c of
        Closed \<Rightarrow> Inl ConnectionClosed
      | Open w t \<Rightarrow>
          (if private_path path then Inr t
           else (case d path of None \<Rightarrow> Inl OperationalError | Some f \<Rightarrow> Inr (contents f))))"

text \<open>
  \<^verbatim>\<open>await self.db.execute("INSERT INTO processed_events ... VALUES (?, ?, ?)")\<close>.
  The statement begins a transaction and takes the write lock, which fails when
  another connection holds it; then the primary key is checked.  The result is the
  table with the new row, not yet committed.
\<close>

definition execute_insert :: "row \<Rightarrow> connection \<Rightarrow> string \<Rightarrow> disk \<Rightarrow> error + table" where
  "execute_insert r c path d =
     (case c of
        Closed \<Rightarrow> Inl ConnectionClosed
      | Open w t \<Rightarrow>
          (if private_path path
           then (if has_key t (fst r) (fst (snd r)) then Inl IntegrityError else Inr (t @ [r]))
           else (case d path of
                   None \<Rightarrow> Inl OperationalError
                 | Some f \<Rightarrow>
                     (if locked f then Inl OperationalError
                      else if has_key (contents f) (fst r) (fst (snd r)) then Inl IntegrityError
                      else Inr (contents f @ [r])))))"

text \<open>
  \<^verbatim>\<open>await self.db.commit()\<close> after an \<^verbatim>\<open>INSERT\<close> that succeeded: the table is
  written, the transaction ends and the lock is released.
\<close>

definition commit :: "table \<Rightarrow> connection \<Rightarrow> string \<Rightarrow> disk \<Rightarrow> connection \<times> disk" where
  "commit t c path d =
     (case c of
        Closed \<Rightarrow> (c, d)
      | Open w t0 \<Rightarrow>
          (if private_path path then (Open False t, d)
           else (Open False t0,
                 (case d path of None \<Rightarrow> d | Some f \<Rightarrow> d(path := Some (f\<lparr>contents := t\<rparr>))))))"

text \<open>
  An \<^verbatim>\<open>INSERT\<close> that failed on the primary key leaves its transaction open, with
  the write lock.
\<close>

definition in_transaction :: "connection \<Rightarrow> connection" where
  "in_transaction c = (case c of Closed \<Rightarrow> Closed | Open w t \<Rightarrow> Open True t)"

text \<open>
  \<^verbatim>\<open>await self.db.close()\<close>: closing an open connection rolls back what is not
  committed and releases the connection and its lock; closing a connection that is
  already closed returns at once.
\<close>

definition connection_close :: "connection \<Rightarrow> error + connection" where
  "connection_close c = Inr Closed"

text \<open>
  A connection that is replaced without being closed stays open for as long as the
  process lives.  If it is inside a transaction on a database file, the file stays
  locked.
\<close>

definition abandon :: "connection option \<Rightarrow> string \<Rightarrow> disk \<Rightarrow> disk" where
  "abandon c path d =
     (case c of
        Some (Open w t) \<Rightarrow>
          (if w \<and> \<not> private_path path
           then (case d path of None \<Rightarrow> d | Some f \<Rightarrow> d(path := Some (f\<lparr>locked := True\<rparr>)))
           else d)
      | other \<Rightarrow> d)"

text \<open>When the process ends, all its connections end, and no file stays locked.\<close>

definition release_all :: "disk \<Rightarrow> disk" where
  "release_all d = (\<lambda>path. map_option (\<lambda>f. f\<lparr>locked := False\<rparr>) (d path))"

section \<open>The ledger: class DedupStore\<close>

text \<open>
  The object holds the path and the connection (\<open>None\<close> until
  \<^verbatim>\<open>initialize\<close>).  \<^verbatim>\<open>db_path\<close> is assigned in the constructor only, so the
  connection, once there, is always one on the database at \<^verbatim>\<open>db_path\<close>.  Every
  operation takes the disk and the object and returns what it changes.
\<close>

record DedupStore =
  db_path :: string
  db :: "connection option"

definition DedupStore_init :: "string \<Rightarrow> DedupStore" where
  "DedupStore_init path = \<lparr>db_path = path, db = None\<rparr>"

text \<open>
  \<^verbatim>\<open>initialize\<close>: connect, \<^verbatim>\<open>CREATE TABLE IF NOT EXISTS\<close>, commit.  The
  connection that \<^verbatim>\<open>self.db\<close> held before, if any, is abandoned.  On a private name
  the new connection has a new, empty database; otherwise a table that is there
  keeps its rows, and the statement, which then writes nothing, passes another
  connection's lock.
\<close>

definition initialize :: "disk \<times> DedupStore \<Rightarrow> disk \<times> DedupStore" where
  "initialize ds =
     (case ds of (d, s) \<Rightarrow>
        (let d1 = abandon (db s) (db_path s) d in
         if private_path (db_path s)
         then (d1, s\<lparr>db := Some (Open False [])\<rparr>)
         else (d1(db_path s := Some (case d1 (db_path s) of
                                       None \<Rightarrow> \<lparr>contents = [], locked = False\<rparr>
                                     | Some f \<Rightarrow> f)),
               s\<lparr>db := Some (Open False [])\<rparr>)))"

definition is_duplicate :: "string \<Rightarrow> string \<Rightarrow> disk \<times> DedupStore \<Rightarrow> error + bool" where
  "is_duplicate tp eid ds =
     (case ds of (d, s) \<Rightarrow>
        (case db s of
           None \<Rightarrow> Inl NotInitialized
         | Some c \<Rightarrow>
             (case execute_select c (db_path s) d of
                Inl e \<Rightarrow> Inl e
              | Inr t \<Rightarrow> Inr (has_key t tp eid))))"

text \<open>
  \<^verbatim>\<open>mark_processed\<close>: the insert, then the commit and \<^verbatim>\<open>True\<close>; an
  \<^verbatim>\<open>IntegrityError\<close> is caught and gives \<^verbatim>\<open>False\<close>, with neither a commit nor a
  rollback; any other exception propagates.  The result is the boolean and the disk
  and the object after the call.
\<close>

definition mark_processed ::
    "string \<Rightarrow> string \<Rightarrow> string \<Rightarrow> disk \<times> DedupStore
       \<Rightarrow> error + (bool \<times> disk \<times> DedupStore)" where
  "mark_processed tp eid ts ds =
     (case ds of (d, s) \<Rightarrow>
        (case db s of
           None \<Rightarrow> Inl NotInitialized
         | Some c \<Rightarrow>
             (case execute_insert (tp, eid, ts) c (db_path s) d of
                Inr t \<Rightarrow>
                  (case commit t c (db_path s) d of
                     (c', d') \<Rightarrow> Inr (True, d', s\<lparr>db := Some c'\<rparr>))
              | Inl IntegrityError \<Rightarrow> Inr (False, d, s\<lparr>db := Some (in_transaction c)\<rparr>)
              | Inl e \<Rightarrow> Inl e)))"

text \<open>\<^verbatim>\<open>SELECT DISTINCT topic ... ORDER BY topic\<close>.\<close>

definition get_unique_topics :: "disk \<times> DedupStore \<Rightarrow> error + string list" where
  "get_unique_topics ds =
     (case ds of (d, s) \<Rightarrow>
        (case db s of
           None \<Rightarrow> Inl NotInitialized
         | Some c \<Rightarrow>
             (case execute_select c (db_path s) d of
                Inl e \<Rightarrow> Inl e
              | Inr t \<Rightarrow> Inr (sort (remdups (map fst t))))))"

text \<open>
  \<^verbatim>\<open>count_processed(topic: Optional[str] = None)\<close> branches on \<^verbatim>\<open>if topic:\<close>,
  which is false for \<^verbatim>\<open>None\<close> and for the empty string.
\<close>

definition truthy :: "string option \<Rightarrow> bool" where
  "truthy arg = (case arg of None \<Rightarrow> False | Some tp \<Rightarrow> tp \<noteq> [])"

definition count_processed :: "string option \<Rightarrow> disk \<times> DedupStore \<Rightarrow> error + int" where
  "count_processed arg ds =
     (case ds of (d, s) \<Rightarrow>
        (case db s of
           None \<Rightarrow> Inl NotInitialized
         | Some c \<Rightarrow>
             (case execute_select c (db_path s) d of
                Inl e \<Rightarrow> Inl e
              | Inr t \<Rightarrow>
                  (if truthy arg
                   then Inr (int (length (filter (\<lambda>r. fst r = the arg) t)))
                   else Inr (int (length t))))))"

text \<open>
  \<^verbatim>\<open>close\<close>: \<^verbatim>\<open>if self.db: await self.db.close()\<close>.  The attribute
  \<^verbatim>\<open>self.db\<close> is not reset: after the call it still holds the connection, now
  closed.
\<close>

definition close :: "DedupStore \<Rightarrow> error + DedupStore" where
  "close s =
     (case db s of
        None \<Rightarrow> Inr s
      | Some c \<Rightarrow>
          (case connection_close c of
             Inl e \<Rightarrow> Inl e
           | Inr c' \<Rightarrow> Inr (s\<lparr>db := Some c'\<rparr>)))"

text \<open>
  The rows that the ledger holds: those of its private database when its connection
  has one, those of the file at its path otherwise.
\<close>

definition rows :: "disk \<times> DedupStore \<Rightarrow> table" where
  "rows ds =
     (case ds of (d, s) \<Rightarrow>
        (if private_path (db_path s)
         then (case db s of Some (Open w t) \<Rightarrow> t | other \<Rightarrow> [])
         else (case d (db_path s) of None \<Rightarrow> [] | Some f \<Rightarrow> contents f)))"

text \<open>Whether an abandoned connection holds the lock of the ledger's file.\<close>

definition file_locked :: "disk \<times> DedupStore \<Rightarrow> bool" where
  "file_locked ds =
     (case ds of (d, s) \<Rightarrow>
        \<not> private_path (db_path s)
        \<and> (case d (db_path s) of None \<Rightarrow> False | Some f \<Rightarrow> locked f))"

text \<open>
  A ledger is ready when \<^verbatim>\<open>initialize\<close> has been called, \<^verbatim>\<open>close\<close> has not, and
  no abandoned connection holds the lock of its file: the connection is open, and
  either it has a private database or the file exists and is not locked.
\<close>

definition ready :: "disk \<times> DedupStore \<Rightarrow> bool" where
  "ready ds =
     (case ds of (d, s) \<Rightarrow>
        (case db s of
           Some (Open w t) \<Rightarrow>
             private_path (db_path s)
             \<or> (case d (db_path s) of None \<Rightarrow> False | Some f \<Rightarrow> \<not> locked f)
         | other \<Rightarrow> False))"

section \<open>Histories of a ledger\<close>

text \<open>
  What can happen to the ledger at one path: the six operations of the class; a new
  object \<^verbatim>\<open>DedupStore(db_path)\<close> for the same path in the same process, which
  abandons the connection of the old one; and a restart of the process, which ends
  all connections and builds a new object for the same path.  An operation that
  raises leaves the state as it was.
\<close>

datatype op =
    Initialize
  | IsDuplicate string string
  | MarkProcessed string string string
  | GetUniqueTopics
  | CountProcessed "string option"
  | Close
  | NewInstance
  | Restart

fun exec_op :: "op \<Rightarrow> disk \<times> DedupStore \<Rightarrow> disk \<times> DedupStore" where
  "exec_op Initialize ds = initialize ds"
| "exec_op (MarkProcessed tp eid ts) ds =
     (case mark_processed tp eid ts ds of
        Inl e \<Rightarrow> ds
      | Inr (b, ds') \<Rightarrow> ds')"
| "exec_op Close ds =
     (case close (snd ds) of Inl e \<Rightarrow> ds | Inr s' \<Rightarrow> (fst ds, s'))"
| "exec_op NewInstance ds =
     (abandon (db (snd ds)) (db_path (snd ds)) (fst ds), DedupStore_init (db_path (snd ds)))"
| "exec_op Restart ds = (release_all (fst ds), DedupStore_init (db_path (snd ds)))"
| "exec_op other ds = ds"

fun run_ops :: "op list \<Rightarrow> disk \<times> DedupStore \<Rightarrow> disk \<times> DedupStore" where
  "run_ops [] ds = ds"
| "run_ops (x # xs) ds = run_ops xs (exec_op x ds)"





section \<open>The pipeline: class EventProcessor\<close>

text \<open>
  An event has the five fields of \<^verbatim>\<open>models.Event\<close>.  The timestamp is kept as
  the text \<^verbatim>\<open>timestamp.isoformat()\<close> gives, the only use the pipeline makes of it;
  the payload is any value.
\<close>

record 'a Event =
  topic :: string
  event_id :: string
  timestamp :: string
  source :: string
  payload :: 'a

record stats =
  received :: int
  unique_processed :: int
  duplicate_dropped :: int

text \<open>
  The \<^verbatim>\<open>asyncio.Queue\<close> is its items in order and its count of unfinished tasks:
  \<^verbatim>\<open>put\<close> adds one, \<^verbatim>\<open>task_done\<close> takes one off, and \<^verbatim>\<open>join\<close> returns
  only when the count is zero.  \<open>in_flight\<close> is the event that the consumer has
  taken from the queue and whose \<^verbatim>\<open>_process_event\<close> has not returned yet: the
  consumer waits there for the ledger, and \<^verbatim>\<open>publish\<close> and the readers of the
  counters can run meanwhile.  The ledger is held by reference.
\<close>

record 'a EventProcessor =
  dedup_store :: DedupStore
  queue :: "'a Event list"
  unfinished_tasks :: int
  in_flight :: "'a Event option"
  processed_events :: "'a Event list"
  stats :: stats
  consumer_task :: bool
  running :: bool

definition EventProcessor_init :: "DedupStore \<Rightarrow> 'a EventProcessor" where
  "EventProcessor_init store =
     \<lparr>dedup_store = store, queue = [], unfinished_tasks = 0, in_flight = None,
      processed_events = [],
      stats = \<lparr>received = 0, unique_processed = 0, duplicate_dropped = 0\<rparr>,
      consumer_task = False, running = False\<rparr>"

definition start :: "'a EventProcessor \<Rightarrow> 'a EventProcessor" where
  "start p = (if running p then p else p\<lparr>running := True, consumer_task := True\<rparr>)"

text \<open>
  \<^verbatim>\<open>publish\<close>: the counter first, then one \<^verbatim>\<open>put\<close> for each event.  The queue
  is unbounded, so no \<^verbatim>\<open>put\<close> waits and the consumer does not run in between.
  The result is the value of the key \<^verbatim>\<open>"received"\<close> of the dictionary returned.
\<close>

definition put :: "'a Event \<Rightarrow> 'a EventProcessor \<Rightarrow> 'a EventProcessor" where
  "put ev p = p\<lparr>queue := queue p @ [ev], unfinished_tasks := unfinished_tasks p + 1\<rparr>"

definition publish :: "'a Event list \<Rightarrow> 'a EventProcessor \<Rightarrow> int \<times> 'a EventProcessor" where
  "publish events p =
     (let n = int (length events);
          p1 = p\<lparr>stats := (stats p)\<lparr>received := received (stats p) + n\<rparr>\<rparr>
      in (n, foldl (\<lambda>q ev. put ev q) p1 events))"

text \<open>
  \<^verbatim>\<open>_process_event\<close>; an exception of \<^verbatim>\<open>mark_processed\<close> propagates.  The
  ledger object is the one the pipeline holds, so what \<^verbatim>\<open>mark_processed\<close> does to
  its connection stays.
\<close>

definition process_event ::
    "'a Event \<Rightarrow> disk \<times> 'a EventProcessor \<Rightarrow> error + (disk \<times> 'a EventProcessor)" where
  "process_event ev dp =
     (case dp of (d, p) \<Rightarrow>
        (case mark_processed (topic ev) (event_id ev) (timestamp ev) (d, dedup_store p) of
           Inl e \<Rightarrow> Inl e
         | Inr (is_new, d', s') \<Rightarrow>
             (if is_new
              then Inr (d', p\<lparr>dedup_store := s',
                               stats := (stats p)\<lparr>unique_processed :=
                                           unique_processed (stats p) + 1\<rparr>,
                               processed_events := processed_events p @ [ev]\<rparr>)
              else Inr (d', p\<lparr>dedup_store := s',
                               stats := (stats p)\<lparr>duplicate_dropped :=
                                           duplicate_dropped (stats p) + 1\<rparr>\<rparr>))))"

definition task_done :: "'a EventProcessor \<Rightarrow> error + 'a EventProcessor" where
  "task_done p =
     (if unfinished_tasks p \<le> 0 then Inl ValueError
      else Inr (p\<lparr>unfinished_tasks := unfinished_tasks p - 1\<rparr>))"

text \<open>
  The consumer calls \<^verbatim>\<open>task_done()\<close> inside its \<^verbatim>\<open>try\<close>: a \<^verbatim>\<open>ValueError\<close>
  would be caught and logged like any other exception.
\<close>

definition call_task_done :: "'a EventProcessor \<Rightarrow> 'a EventProcessor" where
  "call_task_done p = (case task_done p of Inl e \<Rightarrow> p | Inr p' \<Rightarrow> p')"

text \<open>
  One turn of the loop of \<^verbatim>\<open>_consumer_loop\<close> has two parts.  In the first the
  consumer takes the first event of the queue; with nothing in the queue
  \<^verbatim>\<open>wait_for\<close> times out and the loop continues.  In the second the event taken
  is processed; \<^verbatim>\<open>task_done()\<close> follows \<^verbatim>\<open>_process_event\<close> inside the
  \<^verbatim>\<open>try\<close>, so an exception of \<^verbatim>\<open>_process_event\<close> goes to
  \<^verbatim>\<open>except Exception\<close>, which logs it, and \<^verbatim>\<open>task_done()\<close> is not reached.
\<close>

definition take :: "disk \<times> 'a EventProcessor \<Rightarrow> disk \<times> 'a EventProcessor" where
  "take dp =
     (case dp of (d, p) \<Rightarrow>
        (case in_flight p of
           Some ev \<Rightarrow> (d, p)
         | None \<Rightarrow>
             (case queue p of
                [] \<Rightarrow> (d, p)
              | ev # rest \<Rightarrow> (d, p\<lparr>queue := rest, in_flight := Some ev\<rparr>))))"

definition finish :: "disk \<times> 'a EventProcessor \<Rightarrow> disk \<times> 'a EventProcessor" where
  "finish dp =
     (case dp of (d, p) \<Rightarrow>
        (case in_flight p of
           None \<Rightarrow> (d, p)
         | Some ev \<Rightarrow>
             (case process_event ev (d, p\<lparr>in_flight := None\<rparr>) of
                Inl e \<Rightarrow> (d, p\<lparr>in_flight := None\<rparr>)
              | Inr (d', p') \<Rightarrow> (d', call_task_done p'))))"

definition consumer_iteration :: "disk \<times> 'a EventProcessor \<Rightarrow> disk \<times> 'a EventProcessor" where
  "consumer_iteration dp = finish (take dp)"

text \<open>
  The consumer takes its turns only once \<^verbatim>\<open>start\<close> has created the task, and
  \<^verbatim>\<open>while self._running\<close>.  \<open>consumer_loop n\<close> is the state after \<open>n\<close> whole
  turns.
\<close>

definition consume :: "disk \<times> 'a EventProcessor \<Rightarrow> disk \<times> 'a EventProcessor" where
  "consume dp =
     (if consumer_task (snd dp) \<and> running (snd dp) then consumer_iteration dp else dp)"

fun consumer_loop :: "nat \<Rightarrow> disk \<times> 'a EventProcessor \<Rightarrow> disk \<times> 'a EventProcessor" where
  "consumer_loop 0 dp = dp"
| "consumer_loop (Suc n) dp = consumer_loop n (consume dp)"

text \<open>
  The events that the ledger has answered for, accepted or dropped, and the number
  of events in the hands of the consumer.
\<close>

definition counted :: "'a EventProcessor \<Rightarrow> int" where
  "counted p = unique_processed (stats p) + duplicate_dropped (stats p)"

definition holding :: "'a EventProcessor \<Rightarrow> int" where
  "holding p = (case in_flight p of None \<Rightarrow> 0 | Some ev \<Rightarrow> 1)"

text \<open>
  \<^verbatim>\<open>stop\<close> waits in \<^verbatim>\<open>await self.queue.join()\<close>, which returns only in a state
  where no task is unfinished.
\<close>

definition join_returns :: "'a EventProcessor \<Rightarrow> bool" where
  "join_returns p = (unfinished_tasks p = 0)"

text \<open>
  The histories of a pipeline: calls of \<^verbatim>\<open>start\<close> and \<^verbatim>\<open>publish\<close>, and the
  consumer taking an event, finishing the event it has taken, or doing both in one
  whole turn, in any order.
\<close>

datatype 'a action = Start | Publish "'a Event list" | Take | Finish | Consume

fun exec_action :: "'a action \<Rightarrow> disk \<times> 'a EventProcessor \<Rightarrow> disk \<times> 'a EventProcessor" where
  "exec_action Start dp = (fst dp, start (snd dp))"
| "exec_action (Publish events) dp = (fst dp, snd (publish events (snd dp)))"
| "exec_action Take dp =
     (if consumer_task (snd dp) \<and> running (snd dp) then take dp else dp)"
| "exec_action Finish dp = finish dp"
| "exec_action Consume dp = consume dp"

fun run :: "'a action list \<Rightarrow> disk \<times> 'a EventProcessor \<Rightarrow> disk \<times> 'a EventProcessor" where
  "run [] dp = dp"
| "run (a # as) dp = run as (exec_action a dp)"

text \<open>
  A pipeline newly built on the ledger \<open>s\<close>, and one newly built and started on a
  ledger newly initialized where there was no database.
\<close>

definition new_pipeline :: "disk \<Rightarrow> DedupStore \<Rightarrow> disk \<times> 'a EventProcessor" where
  "new_pipeline d s = (d, EventProcessor_init s)"

definition fresh_pipeline :: "string \<Rightarrow> disk \<times> 'a EventProcessor" where
  "fresh_pipeline path =
     (case initialize (\<lambda>p. None, DedupStore_init path) of
        (d, s) \<Rightarrow> (d, start (EventProcessor_init s)))"

text \<open>
  Deduplication as a function on lists, to compare the consumer with: of a list of
  events, a ledger that holds the table \<open>t\<close> accepts each event whose pair is
  neither in \<open>t\<close> nor that of an earlier event of the list.
\<close>

fun accepted :: "table \<Rightarrow> 'a Event list \<Rightarrow> 'a Event list" where
  "accepted t [] = []"
| "accepted t (ev # evs) =
     (if has_key t (topic ev) (event_id ev) then accepted t evs
      else ev # accepted (t @ [(topic ev, event_id ev, timestamp ev)]) evs)"

text \<open>
  Three statements about a pipeline: the counters and the events waiting or in hand
  do not exceed the events received; they equal them; and the count of unfinished
  tasks is the number of events waiting or in hand.
\<close>

definition bound :: "'a EventProcessor \<Rightarrow> bool" where
  "bound p = (counted p + int (length (queue p)) + holding p \<le> received (stats p))"

definition exact :: "'a EventProcessor \<Rightarrow> bool" where
  "exact p = (counted p + int (length (queue p)) + holding p = received (stats p))"

definition accounted :: "'a EventProcessor \<Rightarrow> bool" where
  "accounted p = (unfinished_tasks p = int (length (queue p)) + holding p)"

section \<open>Facts about the ledger\<close>

lemma mark_processed_cases:
  "mark_processed tp eid ts (d, s) =
     (case db s of
        None \<Rightarrow> Inl NotInitialized
      | Some Closed \<Rightarrow> Inl ConnectionClosed
      | Some (Open w t) \<Rightarrow>
          (if private_path (db_path s)
           then (if has_key t tp eid then Inr (False, d, s\<lparr>db := Some (Open True t)\<rparr>)
                 else Inr (True, d, s\<lparr>db := Some (Open False (t @ [(tp, eid, ts)]))\<rparr>))
           else (case d (db_path s) of
                   None \<Rightarrow> Inl OperationalError
                 | Some f \<Rightarrow>
                     (if locked f then Inl OperationalError
                      else if has_key (contents f) tp eid
                      then Inr (False, d, s\<lparr>db := Some (Open True t)\<rparr>)
                      else Inr (True,
                                d(db_path s := Some (f\<lparr>contents := contents f @ [(tp, eid, ts)]\<rparr>)),
                                s\<lparr>db := Some (Open False t)\<rparr>)))))"
  by (simp add: mark_processed_def execute_insert_def commit_def in_transaction_def
      split: option.splits connection.splits)

lemma has_key_append [simp]:
  "has_key (t @ [(tp', eid', ts)]) tp eid
     = (has_key t tp eid \<or> (tp = tp' \<and> eid = eid'))"
  by (auto simp: has_key_def row_key_def)

lemma has_key_Nil [simp]: "\<not> has_key [] tp eid"
  by (simp add: has_key_def)

lemma ready_not_locked: "ready ds \<Longrightarrow> \<not> file_locked ds"
  by (cases ds) (auto simp: ready_def file_locked_def split: option.splits connection.splits)

lemma ready_initialize:
  assumes "db s = None \<or> db s = Some Closed" and "\<not> file_locked (d, s)"
  shows "ready (initialize (d, s))"
  using assms
  by (auto simp: ready_def file_locked_def initialize_def abandon_def Let_def
      split: option.splits)

lemma ready_initialize_fresh: "ready (initialize (\<lambda>p. None, DedupStore_init path))"
  by (rule ready_initialize) (simp_all add: DedupStore_init_def file_locked_def)

lemma rows_initialize_fresh [simp]: "rows (initialize (\<lambda>p. None, DedupStore_init path)) = []"
  by (simp add: rows_def initialize_def abandon_def DedupStore_init_def Let_def)

lemma mark_processed_ready:
  assumes "ready ds"
  shows "\<exists>ds'. mark_processed tp eid ts ds = Inr (\<not> has_key (rows ds) tp eid, ds')
           \<and> ready ds'
           \<and> rows ds' = (if has_key (rows ds) tp eid then rows ds
                          else rows ds @ [(tp, eid, ts)])
           \<and> (has_key (rows ds) tp eid \<longrightarrow> fst ds' = fst ds)
           \<and> db_path (snd ds') = db_path (snd ds)"
proof -
  obtain d s where ds: "ds = (d, s)" by (cases ds)
  from assms obtain w t where o: "db s = Some (Open w t)"
    unfolding ds ready_def by (auto split: option.splits connection.splits)
  show ?thesis
  proof (cases "private_path (db_path s)")
    case True
    with o show ?thesis
      unfolding ds by (simp add: mark_processed_cases rows_def ready_def)
  next
    case False
    with assms o obtain f where f: "d (db_path s) = Some f" "\<not> locked f"
      unfolding ds ready_def by (auto split: option.splits)
    with o False show ?thesis
      unfolding ds by (simp add: mark_processed_cases rows_def ready_def)
  qed
qed

lemma is_duplicate_ready:
  "ready ds \<Longrightarrow> is_duplicate tp eid ds = Inr (has_key (rows ds) tp eid)"
  by (cases ds)
     (auto simp: ready_def is_duplicate_def execute_select_def rows_def
        split: option.splits connection.splits)

lemma db_path_initialize [simp]: "db_path (snd (initialize ds)) = db_path (snd ds)"
  by (cases ds) (simp add: initialize_def Let_def)

lemma db_path_exec_op [simp]: "db_path (snd (exec_op x ds)) = db_path (snd ds)"
  by (cases x; cases ds)
     (auto simp: mark_processed_cases close_def connection_close_def DedupStore_init_def
       split: sum.splits option.splits prod.splits connection.splits if_splits)

lemma db_path_run_ops [simp]: "db_path (snd (run_ops xs ds)) = db_path (snd ds)"
  by (induction xs arbitrary: ds) simp_all

lemma run_ops_append: "run_ops (xs @ ys) ds = run_ops ys (run_ops xs ds)"
  by (induction xs arbitrary: ds) simp_all

text \<open>What one operation does to the rows: nothing, a new row with a new key, or,
  on a private name, the loss of them all.\<close>

lemma rows_exec_op:
  "rows (exec_op x ds) = rows ds
   \<or> (private_path (db_path (snd ds)) \<and> rows (exec_op x ds) = [])
   \<or> (\<exists>tp eid ts. x = MarkProcessed tp eid ts \<and> \<not> has_key (rows ds) tp eid
        \<and> rows (exec_op x ds) = rows ds @ [(tp, eid, ts)])"
proof (cases ds)
  case (Pair d s)
  show ?thesis
  proof (cases x)
    case (MarkProcessed tp eid ts)
    with Pair show ?thesis
      by (auto simp: mark_processed_cases rows_def split: option.splits connection.splits)
  next
    case Initialize
    with Pair show ?thesis
      by (auto simp: initialize_def abandon_def Let_def rows_def
          split: option.splits connection.splits)
  next
    case Close
    with Pair show ?thesis
      by (auto simp: close_def connection_close_def rows_def split: option.splits connection.splits)
  next
    case NewInstance
    with Pair show ?thesis
      by (auto simp: abandon_def DedupStore_init_def rows_def
          split: option.splits connection.splits)
  next
    case Restart
    with Pair show ?thesis
      by (auto simp: release_all_def DedupStore_init_def rows_def
          split: option.splits connection.splits)
  qed (use Pair in \<open>auto simp: rows_def\<close>)
qed




lemma has_key_exec_op:
  "\<not> private_path (db_path (snd ds)) \<Longrightarrow> has_key (rows ds) tp eid \<Longrightarrow>
   has_key (rows (exec_op x ds)) tp eid"
  using rows_exec_op [of x ds] by auto

lemma has_key_run_ops:
  "\<not> private_path (db_path (snd ds)) \<Longrightarrow> has_key (rows ds) tp eid \<Longrightarrow>
   has_key (rows (run_ops xs ds)) tp eid"
  by (induction xs arbitrary: ds) (simp_all add: has_key_exec_op)

text \<open>The definitions that evaluate a ledger on a concrete disk.\<close>

lemmas ledger_defs =
  mark_processed_def is_duplicate_def get_unique_topics_def count_processed_def
  execute_select_def execute_insert_def commit_def in_transaction_def abandon_def
  release_all_def private_path_def has_key_def row_key_def initialize_def close_def
  connection_close_def DedupStore_init_def ready_def rows_def file_locked_def truthy_def
  Let_def










lemma rows_fresh [simp]: "rows (\<lambda>p. None, DedupStore_init path) = []"
  by (simp add: rows_def DedupStore_init_def)

text \<open>
  C1, as stated, fails on a ledger that is initialized a second time without
  \<^verbatim>\<open>close\<close>.  After \<^verbatim>\<open>initialize\<close>, a first and a duplicate
  \<^verbatim>\<open>mark_processed\<close> (which returns \<^verbatim>\<open>False\<close> and leaves its transaction
  open) and a second \<^verbatim>\<open>initialize\<close>, the ledger has an open connection and
  answers \<^verbatim>\<open>is_duplicate\<close>, but the connection it abandoned holds the write lock:
  \<^verbatim>\<open>mark_processed\<close> raises, for the pair that exists as for one that does not.
\<close>

theorem initialized_ledger_locked_raises:
  "db (snd (run_ops [Initialize, MarkProcessed ''T'' ''1'' ''a'', MarkProcessed ''T'' ''1'' ''b'',
                     Initialize] (\<lambda>p. None, DedupStore_init ''a.db''))) = Some (Open False [])
   \<and> is_duplicate ''T'' ''1''
        (run_ops [Initialize, MarkProcessed ''T'' ''1'' ''a'', MarkProcessed ''T'' ''1'' ''b'',
                  Initialize] (\<lambda>p. None, DedupStore_init ''a.db'')) = Inr True
   \<and> mark_processed ''T'' ''1'' ''c''
        (run_ops [Initialize, MarkProcessed ''T'' ''1'' ''a'', MarkProcessed ''T'' ''1'' ''b'',
                  Initialize] (\<lambda>p. None, DedupStore_init ''a.db'')) = Inl OperationalError
   \<and> is_duplicate ''T'' ''2''
        (run_ops [Initialize, MarkProcessed ''T'' ''1'' ''a'', MarkProcessed ''T'' ''1'' ''b'',
                  Initialize] (\<lambda>p. None, DedupStore_init ''a.db'')) = Inr False
   \<and> mark_processed ''T'' ''2'' ''c''
        (run_ops [Initialize, MarkProcessed ''T'' ''1'' ''a'', MarkProcessed ''T'' ''1'' ''b'',
                  Initialize] (\<lambda>p. None, DedupStore_init ''a.db'')) = Inl OperationalError"
  by (simp add: ledger_defs)

text \<open>
  C1, amended.  On a ready ledger (initialized, not closed, and with no abandoned
  connection holding the lock of its file)
  \<^verbatim>\<open>mark_processed(topic, event_id, first_seen_at)\<close> always returns a boolean and
  never an error; the boolean is true exactly when no record with that pair existed
  before the call; when it is true the record has been appended, when it is false
  the records and the disk are unchanged; and the ledger is ready afterwards.
\<close>

theorem mark_processed_true_iff_new:
  assumes "ready ds"
  shows "\<exists>ds'. mark_processed tp eid ts ds = Inr (\<not> has_key (rows ds) tp eid, ds')
           \<and> ready ds'
           \<and> (\<not> has_key (rows ds) tp eid \<longrightarrow>
                 rows ds' = rows ds @ [(tp, eid, ts)] \<and> has_key (rows ds') tp eid)
           \<and> (has_key (rows ds) tp eid \<longrightarrow> rows ds' = rows ds \<and> fst ds' = fst ds)"
  using mark_processed_ready [OF assms, of tp eid ts] by auto

theorem mark_processed_true_iff_new_witness:
  "ready (run_ops [Initialize, MarkProcessed ''T'' ''1'' ''a''] (\<lambda>p. None, DedupStore_init ''a.db''))
   \<and> (\<exists>ds'. mark_processed ''T'' ''2'' ''b''
          (run_ops [Initialize, MarkProcessed ''T'' ''1'' ''a''] (\<lambda>p. None, DedupStore_init ''a.db''))
        = Inr (True, ds'))
   \<and> (\<exists>ds'. mark_processed ''T'' ''1'' ''b''
          (run_ops [Initialize, MarkProcessed ''T'' ''1'' ''a''] (\<lambda>p. None, DedupStore_init ''a.db''))
        = Inr (False, ds'))"
proof -
  let ?ds = "run_ops [Initialize, MarkProcessed ''T'' ''1'' ''a'']
               (\<lambda>p. None, DedupStore_init ''a.db'')"
  have r: "ready ?ds"
    by (simp add: ledger_defs)
  have k1: "has_key (rows ?ds) ''T'' ''1''"
    by (simp add: ledger_defs)
  have k2: "\<not> has_key (rows ?ds) ''T'' ''2''"
    by (simp add: ledger_defs)
  from mark_processed_true_iff_new [OF r, of "''T''" "''2''" "''b''"] k2
  have a: "\<exists>ds'. mark_processed ''T'' ''2'' ''b'' ?ds = Inr (True, ds')"
    by auto
  from mark_processed_true_iff_new [OF r, of "''T''" "''1''" "''b''"] k1
  have b: "\<exists>ds'. mark_processed ''T'' ''1'' ''b'' ?ds = Inr (False, ds')"
    by auto
  from r a b show ?thesis
    by blast
qed



lemma not_locked_release_all [simp]: "\<not> file_locked (release_all d, s)"
  by (simp add: file_locked_def release_all_def split: option.splits)

lemma file_locked_close:
  "close s = Inr s' \<Longrightarrow> file_locked (d, s') = file_locked (d, s)"
  by (auto simp: close_def connection_close_def file_locked_def split: option.splits)

text \<open>
  C3.  On a path that names a file, once \<^verbatim>\<open>mark_processed\<close> has returned
  \<^verbatim>\<open>True\<close> for a pair, then after any further operations, a \<^verbatim>\<open>close\<close>, a
  restart of the process and \<^verbatim>\<open>initialize\<close> on the new \<^verbatim>\<open>DedupStore\<close> for the
  same path, \<^verbatim>\<open>is_duplicate\<close> returns \<^verbatim>\<open>True\<close> for the pair and
  \<^verbatim>\<open>mark_processed\<close> returns \<^verbatim>\<open>False\<close> and leaves the disk as it is.  The
  same holds for a new \<^verbatim>\<open>DedupStore\<close> in the same process when no abandoned
  connection holds the lock of the file.
\<close>

theorem marked_pair_survives_restart:
  assumes "mark_processed tp eid ts ds = Inr (True, ds1)"
    and "\<not> private_path (db_path (snd ds))"
  shows "is_duplicate tp eid (run_ops (ops @ [Close, Restart, Initialize]) ds1) = Inr True
       \<and> (\<exists>ds2. mark_processed tp eid ts' (run_ops (ops @ [Close, Restart, Initialize]) ds1)
                  = Inr (False, ds2)
              \<and> fst ds2 = fst (run_ops (ops @ [Close, Restart, Initialize]) ds1))
       \<and> db_path (snd (run_ops (ops @ [Close, Restart, Initialize]) ds1)) = db_path (snd ds)
       \<and> (\<not> file_locked (run_ops ops ds1) \<longrightarrow>
            is_duplicate tp eid (run_ops (ops @ [Close, NewInstance, Initialize]) ds1) = Inr True
          \<and> (\<exists>ds2. mark_processed tp eid ts' (run_ops (ops @ [Close, NewInstance, Initialize]) ds1)
                     = Inr (False, ds2)
                 \<and> fst ds2 = fst (run_ops (ops @ [Close, NewInstance, Initialize]) ds1)))"
proof -
  obtain d s where ds: "ds = (d, s)" by (cases ds)
  from assms have p1: "db_path (snd ds1) = db_path (snd ds)"
    and k1: "has_key (rows ds1) tp eid"
    unfolding ds
    by (auto simp: mark_processed_cases rows_def
        split: option.splits connection.splits if_splits)
  from assms(2) p1 have np: "\<not> private_path (db_path (snd ds1))"
    by simp
  let ?mid = "run_ops ops ds1"
  have pm: "db_path (snd ?mid) = db_path (snd ds)"
    using p1 by simp
  have km: "has_key (rows ?mid) tp eid"
    using np k1 by (rule has_key_run_ops)
  have fin: "is_duplicate tp eid (initialize (d', s')) = Inr True
       \<and> (\<exists>ds2. mark_processed tp eid ts' (initialize (d', s')) = Inr (False, ds2)
              \<and> fst ds2 = fst (initialize (d', s')))"
    if "db s' = None \<or> db s' = Some Closed" "\<not> file_locked (d', s')"
      "has_key (rows (d', s')) tp eid" "\<not> private_path (db_path s')" for d' s'
  proof -
    from that(1,2) have r: "ready (initialize (d', s'))"
      by (rule ready_initialize)
    from that(3,4) have "has_key (rows (exec_op Initialize (d', s'))) tp eid"
      by (intro has_key_exec_op) simp_all
    then have k: "has_key (rows (initialize (d', s'))) tp eid"
      by simp
    from mark_processed_ready [OF r, of tp eid ts'] k is_duplicate_ready [OF r, of tp eid]
    show ?thesis
      by auto
  qed
  let ?c = "exec_op Close ?mid"
  let ?a = "exec_op Restart ?c"
  let ?b = "exec_op NewInstance ?c"
  have npm: "\<not> private_path (db_path (snd ?mid))"
    using pm assms(2) by simp
  have kc: "has_key (rows ?c) tp eid"
    using npm km by (rule has_key_exec_op)
  have npc: "\<not> private_path (db_path (snd ?c))"
    using npm unfolding db_path_exec_op .
  have ka: "has_key (rows ?a) tp eid" and kb: "has_key (rows ?b) tp eid"
    using npc kc by (rule has_key_exec_op)+
  have da: "db (snd ?a) = None" and db': "db (snd ?b) = None"
    by (simp_all add: DedupStore_init_def)
  have la: "\<not> file_locked ?a"
    by simp
  have lb: "\<not> file_locked ?b" if "\<not> file_locked ?mid"
    using that
    by (cases ?mid)
       (auto simp: close_def connection_close_def abandon_def file_locked_def
          DedupStore_init_def split: option.splits)
  have pa: "\<not> private_path (db_path (snd ?a))"
    using npm unfolding db_path_exec_op .
  have pb: "\<not> private_path (db_path (snd ?b))"
    using npm unfolding db_path_exec_op .
  have ea: "run_ops (ops @ [Close, Restart, Initialize]) ds1 = initialize (fst ?a, snd ?a)"
    by (simp add: run_ops_append)
  have eb: "run_ops (ops @ [Close, NewInstance, Initialize]) ds1 = initialize (fst ?b, snd ?b)"
    by (simp add: run_ops_append)
  from fin [of "snd ?a" "fst ?a"] da la ka pa
  have A: "is_duplicate tp eid (run_ops (ops @ [Close, Restart, Initialize]) ds1) = Inr True
       \<and> (\<exists>ds2. mark_processed tp eid ts' (run_ops (ops @ [Close, Restart, Initialize]) ds1)
                  = Inr (False, ds2)
              \<and> fst ds2 = fst (run_ops (ops @ [Close, Restart, Initialize]) ds1))"
    unfolding ea by simp
  have B: "is_duplicate tp eid (run_ops (ops @ [Close, NewInstance, Initialize]) ds1) = Inr True
          \<and> (\<exists>ds2. mark_processed tp eid ts' (run_ops (ops @ [Close, NewInstance, Initialize]) ds1)
                     = Inr (False, ds2)
                 \<and> fst ds2 = fst (run_ops (ops @ [Close, NewInstance, Initialize]) ds1))"
    if "\<not> file_locked ?mid"
    using fin [of "snd ?b" "fst ?b"] db' lb [OF that] kb pb unfolding eb by simp
  have C: "db_path (snd (run_ops (ops @ [Close, Restart, Initialize]) ds1)) = db_path (snd ds)"
    using p1 by simp
  from A B C show ?thesis
    by blast
qed

theorem marked_pair_survives_restart_witness:
  "\<not> private_path ''a.db''
   \<and> mark_processed ''T'' ''1'' ''a'' (initialize (\<lambda>p. None, DedupStore_init ''a.db''))
     = Inr (True, [''a.db'' \<mapsto> \<lparr>contents = [(''T'', ''1'', ''a'')], locked = False\<rparr>],
                  \<lparr>db_path = ''a.db'', db = Some (Open False [])\<rparr>)
   \<and> is_duplicate ''T'' ''1''
        (run_ops [Close, Restart, Initialize]
           ([''a.db'' \<mapsto> \<lparr>contents = [(''T'', ''1'', ''a'')], locked = False\<rparr>],
            \<lparr>db_path = ''a.db'', db = Some (Open False [])\<rparr>)) = Inr True
   \<and> (\<exists>ds2. mark_processed ''T'' ''1'' ''b''
        (run_ops [Close, Restart, Initialize]
           ([''a.db'' \<mapsto> \<lparr>contents = [(''T'', ''1'', ''a'')], locked = False\<rparr>],
            \<lparr>db_path = ''a.db'', db = Some (Open False [])\<rparr>)) = Inr (False, ds2))
   \<and> \<not> file_locked
          ([''a.db'' \<mapsto> \<lparr>contents = [(''T'', ''1'', ''a'')], locked = False\<rparr>],
           \<lparr>db_path = ''a.db'', db = Some (Open False [])\<rparr>)
   \<and> is_duplicate ''T'' ''1''
        (run_ops [Close, NewInstance, Initialize]
           ([''a.db'' \<mapsto> \<lparr>contents = [(''T'', ''1'', ''a'')], locked = False\<rparr>],
            \<lparr>db_path = ''a.db'', db = Some (Open False [])\<rparr>)) = Inr True
   \<and> (\<exists>ds2. mark_processed ''T'' ''1'' ''b''
        (run_ops [Close, NewInstance, Initialize]
           ([''a.db'' \<mapsto> \<lparr>contents = [(''T'', ''1'', ''a'')], locked = False\<rparr>],
            \<lparr>db_path = ''a.db'', db = Some (Open False [])\<rparr>)) = Inr (False, ds2))"
proof -
  let ?ds = "initialize (\<lambda>p. None, DedupStore_init ''a.db'')"
  let ?ds1 = "([''a.db'' \<mapsto> \<lparr>contents = [(''T'', ''1'', ''a'')], locked = False\<rparr>],
               \<lparr>db_path = ''a.db'', db = Some (Open False [])\<rparr>)"
  have m: "mark_processed ''T'' ''1'' ''a'' ?ds = Inr (True, ?ds1)"
    by (simp add: ledger_defs)
  have p: "\<not> private_path (db_path (snd ?ds))"
    by (simp add: ledger_defs)
  have l: "\<not> file_locked (run_ops [] ?ds1)"
    by (simp add: ledger_defs)
  from marked_pair_survives_restart [OF m p, of "[]" "''b''"] m l
  show ?thesis
    by (auto simp: private_path_def)
qed

text \<open>
  C6, as stated, fails after \<^verbatim>\<open>close\<close>: on a ledger that was initialized and
  then closed, \<^verbatim>\<open>self.db\<close> still holds the connection, the guard
  \<^verbatim>\<open>if not self.db\<close> does not fire, and the call fails in the storage layer with
  the error of a closed connection.
\<close>

theorem closed_ledger_not_uninitialized_error:
  "close (snd (initialize (\<lambda>p. None, DedupStore_init ''a.db'')))
     = Inr \<lparr>db_path = ''a.db'', db = Some Closed\<rparr>
   \<and> is_duplicate ''T'' ''1''
        (fst (initialize (\<lambda>p. None, DedupStore_init ''a.db'')),
         \<lparr>db_path = ''a.db'', db = Some Closed\<rparr>) = Inl ConnectionClosed
   \<and> is_duplicate ''T'' ''1''
        (fst (initialize (\<lambda>p. None, DedupStore_init ''a.db'')),
         \<lparr>db_path = ''a.db'', db = Some Closed\<rparr>) \<noteq> Inl NotInitialized"
  by (simp add: ledger_defs)

text \<open>
  C6, amended.  Each of \<^verbatim>\<open>is_duplicate\<close>, \<^verbatim>\<open>mark_processed\<close>,
  \<^verbatim>\<open>get_unique_topics\<close> and \<^verbatim>\<open>count_processed\<close> fails with the
  uninitialized-state error on a ledger whose \<^verbatim>\<open>initialize\<close> has not been called;
  on a ledger that has been initialized, \<^verbatim>\<open>close\<close> succeeds and each of the four
  then fails with the storage layer's closed-connection error.
\<close>

theorem uninitialized_error_before_initialize:
  "(db s = None \<longrightarrow>
      is_duplicate tp eid (d, s) = Inl NotInitialized
    \<and> mark_processed tp eid ts (d, s) = Inl NotInitialized
    \<and> get_unique_topics (d, s) = Inl NotInitialized
    \<and> count_processed arg (d, s) = Inl NotInitialized)
   \<and> (db s \<noteq> None \<longrightarrow>
      (\<exists>s'. close s = Inr s' \<and> db s' = Some Closed
        \<and> is_duplicate tp eid (d, s') = Inl ConnectionClosed
        \<and> mark_processed tp eid ts (d, s') = Inl ConnectionClosed
        \<and> get_unique_topics (d, s') = Inl ConnectionClosed
        \<and> count_processed arg (d, s') = Inl ConnectionClosed))"
  by (auto simp: is_duplicate_def mark_processed_def get_unique_topics_def count_processed_def
      execute_select_def execute_insert_def close_def connection_close_def)

theorem uninitialized_error_before_initialize_witness:
  "db (DedupStore_init ''a.db'') = None
   \<and> mark_processed ''T'' ''1'' ''a'' (\<lambda>p. None, DedupStore_init ''a.db'') = Inl NotInitialized
   \<and> db (snd (initialize (\<lambda>p. None, DedupStore_init ''a.db''))) \<noteq> None
   \<and> (\<exists>s'. close (snd (initialize (\<lambda>p. None, DedupStore_init ''a.db''))) = Inr s'
          \<and> mark_processed ''T'' ''1'' ''a'' (\<lambda>p. None, s') = Inl ConnectionClosed)"
  using uninitialized_error_before_initialize
    [of "DedupStore_init ''a.db''" "''T''" "''1''" "\<lambda>p. None" "''a''" None]
    uninitialized_error_before_initialize
    [of "snd (initialize (\<lambda>p. None, DedupStore_init ''a.db''))" "''T''" "''1''" "\<lambda>p. None" "''a''" None]
  by (simp add: ledger_defs)

text \<open>
  C9.  \<^verbatim>\<open>close\<close> never raises, and a second \<^verbatim>\<open>close\<close> returns the ledger that
  the first one left; the disk is not an argument of \<^verbatim>\<open>close\<close>.
\<close>

theorem close_twice:
  "\<exists>s1. close s = Inr s1 \<and> close s1 = Inr s1"
  by (simp add: close_def connection_close_def split: option.splits)



section \<open>Facts about the pipeline\<close>

lemma foldl_put:
  "foldl (\<lambda>q ev. put ev q) p events
     = p\<lparr>queue := queue p @ events,
         unfinished_tasks := unfinished_tasks p + int (length events)\<rparr>"
  by (induction events arbitrary: p) (simp_all add: put_def)

lemma publish_eq:
  "publish events p =
     (int (length events),
      p\<lparr>stats := (stats p)\<lparr>received := received (stats p) + int (length events)\<rparr>,
        queue := queue p @ events,
        unfinished_tasks := unfinished_tasks p + int (length events)\<rparr>)"
  by (simp add: publish_def Let_def foldl_put)

text \<open>
  C8.  \<^verbatim>\<open>publish(events)\<close> returns the size of the batch, appends the events to
  the queue in the order given, adds the size of the batch to \<^verbatim>\<open>received\<close>, and
  leaves \<^verbatim>\<open>unique_processed\<close>, \<^verbatim>\<open>duplicate_dropped\<close>, the log, the event in
  the hands of the consumer, the ledger and the disk as they were: nothing of the
  batch has been processed when it returns.
\<close>

theorem publish_admits_batch:
  "fst (publish events p) = int (length events)
   \<and> queue (snd (publish events p)) = queue p @ events
   \<and> received (stats (snd (publish events p))) = received (stats p) + int (length events)
   \<and> unique_processed (stats (snd (publish events p))) = unique_processed (stats p)
   \<and> duplicate_dropped (stats (snd (publish events p))) = duplicate_dropped (stats p)
   \<and> processed_events (snd (publish events p)) = processed_events p
   \<and> dedup_store (snd (publish events p)) = dedup_store p
   \<and> in_flight (snd (publish events p)) = in_flight p
   \<and> fst (exec_action (Publish events) (d, p)) = d"
  by (simp add: publish_eq)

lemma take_cases:
  "take (d, p) =
     (if in_flight p = None \<and> queue p \<noteq> []
      then (d, p\<lparr>queue := tl (queue p), in_flight := Some (hd (queue p))\<rparr>)
      else (d, p))"
  by (simp add: take_def split: option.splits list.splits)

lemma call_task_done_fields [simp]:
  "queue (call_task_done p) = queue p"
  "in_flight (call_task_done p) = in_flight p"
  "stats (call_task_done p) = stats p"
  "processed_events (call_task_done p) = processed_events p"
  "dedup_store (call_task_done p) = dedup_store p"
  "consumer_task (call_task_done p) = consumer_task p"
  "running (call_task_done p) = running p"
  "unfinished_tasks (call_task_done p)
     = (if unfinished_tasks p \<le> 0 then unfinished_tasks p else unfinished_tasks p - 1)"
  by (simp_all add: call_task_done_def task_done_def)

lemma finish_None: "in_flight p = None \<Longrightarrow> finish (d, p) = (d, p)"
  by (simp add: finish_def)

lemma finish_raise:
  assumes "in_flight p = Some ev"
    and "mark_processed (topic ev) (event_id ev) (timestamp ev) (d, dedup_store p) = Inl e"
  shows "finish (d, p) = (d, p\<lparr>in_flight := None\<rparr>)"
  using assms by (simp add: finish_def process_event_def)

lemma finish_new:
  assumes "in_flight p = Some ev"
    and "mark_processed (topic ev) (event_id ev) (timestamp ev) (d, dedup_store p)
           = Inr (True, d', s')"
  shows "finish (d, p) =
     (d', call_task_done
            (p\<lparr>in_flight := None, dedup_store := s',
               stats := (stats p)\<lparr>unique_processed := unique_processed (stats p) + 1\<rparr>,
               processed_events := processed_events p @ [ev]\<rparr>))"
  using assms by (simp add: finish_def process_event_def)

lemma finish_dup:
  assumes "in_flight p = Some ev"
    and "mark_processed (topic ev) (event_id ev) (timestamp ev) (d, dedup_store p)
           = Inr (False, d', s')"
  shows "finish (d, p) =
     (d', call_task_done
            (p\<lparr>in_flight := None, dedup_store := s',
               stats := (stats p)\<lparr>duplicate_dropped := duplicate_dropped (stats p) + 1\<rparr>\<rparr>))"
  using assms by (simp add: finish_def process_event_def)

text \<open>The three outcomes of the second part of a turn, in one case analysis.\<close>

lemma finish_outcome:
  assumes "in_flight p = Some ev"
  obtains (raise) e where
      "mark_processed (topic ev) (event_id ev) (timestamp ev) (d, dedup_store p) = Inl e"
      "finish (d, p) = (d, p\<lparr>in_flight := None\<rparr>)"
  | (new) d' s' where
      "mark_processed (topic ev) (event_id ev) (timestamp ev) (d, dedup_store p)
         = Inr (True, d', s')"
      "finish (d, p) =
         (d', call_task_done
                (p\<lparr>in_flight := None, dedup_store := s',
                   stats := (stats p)\<lparr>unique_processed := unique_processed (stats p) + 1\<rparr>,
                   processed_events := processed_events p @ [ev]\<rparr>))"
  | (dup) d' s' where
      "mark_processed (topic ev) (event_id ev) (timestamp ev) (d, dedup_store p)
         = Inr (False, d', s')"
      "finish (d, p) =
         (d', call_task_done
                (p\<lparr>in_flight := None, dedup_store := s',
                   stats := (stats p)\<lparr>duplicate_dropped := duplicate_dropped (stats p) + 1\<rparr>\<rparr>))"
proof (cases "mark_processed (topic ev) (event_id ev) (timestamp ev) (d, dedup_store p)")
  case (Inl e)
  from finish_raise [OF assms Inl] Inl show ?thesis by (rule raise [rotated])
next
  case (Inr r)
  obtain b d' s' where r: "r = (b, d', s')" by (cases r)
  show ?thesis
  proof (cases b)
    case True
    with Inr r have m: "mark_processed (topic ev) (event_id ev) (timestamp ev) (d, dedup_store p)
        = Inr (True, d', s')" by simp
    from m finish_new [OF assms m] show ?thesis by (rule new)
  next
    case False
    with Inr r have m: "mark_processed (topic ev) (event_id ev) (timestamp ev) (d, dedup_store p)
        = Inr (False, d', s')" by simp
    from m finish_dup [OF assms m] show ?thesis by (rule dup)
  qed
qed

lemma finish_ready:
  assumes "ready (d, dedup_store p)" and "in_flight p = Some ev"
  shows "ready (fst (finish (d, p)), dedup_store (snd (finish (d, p))))"
    and "rows (fst (finish (d, p)), dedup_store (snd (finish (d, p)))) =
         (if has_key (rows (d, dedup_store p)) (topic ev) (event_id ev)
          then rows (d, dedup_store p)
          else rows (d, dedup_store p) @ [(topic ev, event_id ev, timestamp ev)])"
    and "queue (snd (finish (d, p))) = queue p"
    and "in_flight (snd (finish (d, p))) = None"
    and "unfinished_tasks (snd (finish (d, p)))
         = (if unfinished_tasks p \<le> 0 then unfinished_tasks p else unfinished_tasks p - 1)"
    and "stats (snd (finish (d, p))) =
         (if has_key (rows (d, dedup_store p)) (topic ev) (event_id ev)
          then (stats p)\<lparr>duplicate_dropped := duplicate_dropped (stats p) + 1\<rparr>
          else (stats p)\<lparr>unique_processed := unique_processed (stats p) + 1\<rparr>)"
    and "processed_events (snd (finish (d, p))) =
         (if has_key (rows (d, dedup_store p)) (topic ev) (event_id ev)
          then processed_events p else processed_events p @ [ev])"
    and "consumer_task (snd (finish (d, p))) = consumer_task p"
    and "running (snd (finish (d, p))) = running p"
proof -
  from mark_processed_ready [OF assms(1), of "topic ev" "event_id ev" "timestamp ev"]
  obtain ds' where m: "mark_processed (topic ev) (event_id ev) (timestamp ev) (d, dedup_store p)
        = Inr (\<not> has_key (rows (d, dedup_store p)) (topic ev) (event_id ev), ds')"
    and r: "ready ds'"
    and w: "rows ds' = (if has_key (rows (d, dedup_store p)) (topic ev) (event_id ev)
                        then rows (d, dedup_store p)
                        else rows (d, dedup_store p) @ [(topic ev, event_id ev, timestamp ev)])"
    by blast
  obtain d' s' where ds': "ds' = (d', s')" by (cases ds')
  have f: "finish (d, p) =
      (d', call_task_done
        (if has_key (rows (d, dedup_store p)) (topic ev) (event_id ev)
         then p\<lparr>in_flight := None, dedup_store := s',
                 stats := (stats p)\<lparr>duplicate_dropped := duplicate_dropped (stats p) + 1\<rparr>\<rparr>
         else p\<lparr>in_flight := None, dedup_store := s',
                 stats := (stats p)\<lparr>unique_processed := unique_processed (stats p) + 1\<rparr>,
                 processed_events := processed_events p @ [ev]\<rparr>))"
  proof (cases "has_key (rows (d, dedup_store p)) (topic ev) (event_id ev)")
    case True
    with m ds' have "mark_processed (topic ev) (event_id ev) (timestamp ev) (d, dedup_store p)
        = Inr (False, d', s')" by simp
    from finish_dup [OF assms(2) this] True show ?thesis by simp
  next
    case False
    with m ds' have "mark_processed (topic ev) (event_id ev) (timestamp ev) (d, dedup_store p)
        = Inr (True, d', s')" by simp
    from finish_new [OF assms(2) this] False show ?thesis by simp
  qed
  have s: "dedup_store (snd (finish (d, p))) = s'" and d: "fst (finish (d, p)) = d'"
    unfolding f by simp_all
  from r show "ready (fst (finish (d, p)), dedup_store (snd (finish (d, p))))"
    unfolding s d ds' .
  from w show "rows (fst (finish (d, p)), dedup_store (snd (finish (d, p)))) =
         (if has_key (rows (d, dedup_store p)) (topic ev) (event_id ev)
          then rows (d, dedup_store p)
          else rows (d, dedup_store p) @ [(topic ev, event_id ev, timestamp ev)])"
    unfolding s d ds' .
  show "queue (snd (finish (d, p))) = queue p"
    unfolding f by simp
  show "in_flight (snd (finish (d, p))) = None"
    unfolding f by simp
  show "unfinished_tasks (snd (finish (d, p)))
         = (if unfinished_tasks p \<le> 0 then unfinished_tasks p else unfinished_tasks p - 1)"
    unfolding f by simp
  show "stats (snd (finish (d, p))) =
         (if has_key (rows (d, dedup_store p)) (topic ev) (event_id ev)
          then (stats p)\<lparr>duplicate_dropped := duplicate_dropped (stats p) + 1\<rparr>
          else (stats p)\<lparr>unique_processed := unique_processed (stats p) + 1\<rparr>)"
    unfolding f by simp
  show "processed_events (snd (finish (d, p))) =
         (if has_key (rows (d, dedup_store p)) (topic ev) (event_id ev)
          then processed_events p else processed_events p @ [ev])"
    unfolding f by simp
  show "consumer_task (snd (finish (d, p))) = consumer_task p"
    unfolding f by simp
  show "running (snd (finish (d, p))) = running p"
    unfolding f by simp
qed

lemma take_fields [simp]:
  "fst (take (d, p)) = d"
  "dedup_store (snd (take (d, p))) = dedup_store p"
  "stats (snd (take (d, p))) = stats p"
  "unfinished_tasks (snd (take (d, p))) = unfinished_tasks p"
  "processed_events (snd (take (d, p))) = processed_events p"
  "consumer_task (snd (take (d, p))) = consumer_task p"
  "running (snd (take (d, p))) = running p"
  by (simp_all add: take_cases)

lemma take_load:
  "int (length (queue (snd (take (d, p))))) + holding (snd (take (d, p)))
     = int (length (queue p)) + holding p"
proof (cases "in_flight p = None \<and> queue p \<noteq> []")
  case True
  then obtain ev rest where "queue p = ev # rest" by (cases "queue p") auto
  with True show ?thesis by (simp add: take_cases holding_def)
next
  case False
  then have "take (d, p) = (d, p)" by (auto simp: take_cases)
  then show ?thesis by simp
qed

lemma take_keeps:
  "bound (snd (take (d, p))) = bound p"
  "exact (snd (take (d, p))) = exact p"
  "accounted (snd (take (d, p))) = accounted p"
  using take_load [of d p]
  by (simp_all add: bound_def exact_def accounted_def counted_def add.assoc)

lemma finish_bound: "bound p \<Longrightarrow> bound (snd (finish (d, p)))"
proof (cases "in_flight p")
  case None
  then show "bound p \<Longrightarrow> ?thesis" by (simp add: finish_None)
next
  case (Some ev)
  assume b: "bound p"
  from Some show ?thesis
  proof (cases rule: finish_outcome [where d = d])
    case (raise e)
    with b Some show ?thesis
      by (simp add: bound_def counted_def holding_def)
  next
    case (new d' s')
    with b Some show ?thesis
      by (simp add: bound_def counted_def holding_def)
  next
    case (dup d' s')
    with b Some show ?thesis
      by (simp add: bound_def counted_def holding_def)
  qed
qed

lemma finish_ready_keeps:
  assumes "ready (d, dedup_store p)"
  shows "ready (fst (finish (d, p)), dedup_store (snd (finish (d, p))))"
    and "exact p \<Longrightarrow> exact (snd (finish (d, p)))"
    and "accounted p \<Longrightarrow> accounted (snd (finish (d, p)))"
proof -
  show "ready (fst (finish (d, p)), dedup_store (snd (finish (d, p))))"
  proof (cases "in_flight p")
    case None
    with assms show ?thesis by (simp add: finish_None)
  next
    case (Some ev)
    from finish_ready(1) [OF assms Some] show ?thesis .
  qed
  show "exact (snd (finish (d, p)))" if "exact p"
  proof (cases "in_flight p")
    case None
    with that show ?thesis by (simp add: finish_None)
  next
    case (Some ev)
    from that Some show ?thesis
      by (simp add: exact_def counted_def holding_def finish_ready [OF assms Some])
  qed
  show "accounted (snd (finish (d, p)))" if "accounted p"
  proof (cases "in_flight p")
    case None
    with that show ?thesis by (simp add: finish_None)
  next
    case (Some ev)
    from that Some show ?thesis
      by (simp add: accounted_def holding_def finish_ready [OF assms Some])
  qed
qed

lemma consumer_iteration_eq:
  "consumer_iteration (d, p) = finish (d, snd (take (d, p)))"
  by (simp add: consumer_iteration_def take_cases)

lemma consumer_iteration_bound: "bound p \<Longrightarrow> bound (snd (consumer_iteration (d, p)))"
  unfolding consumer_iteration_eq by (rule finish_bound) (simp add: take_keeps)

lemma consumer_iteration_ready:
  assumes "ready (d, dedup_store p)"
  shows "ready (fst (consumer_iteration (d, p)), dedup_store (snd (consumer_iteration (d, p))))"
    and "exact p \<Longrightarrow> exact (snd (consumer_iteration (d, p)))"
    and "accounted p \<Longrightarrow> accounted (snd (consumer_iteration (d, p)))"
proof -
  from assms have r: "ready (d, dedup_store (snd (take (d, p))))"
    by simp
  show "ready (fst (consumer_iteration (d, p)), dedup_store (snd (consumer_iteration (d, p))))"
    unfolding consumer_iteration_eq by (rule finish_ready_keeps(1) [OF r])
  show "exact (snd (consumer_iteration (d, p)))" if "exact p"
    unfolding consumer_iteration_eq
    by (rule finish_ready_keeps(2) [OF r]) (simp add: take_keeps that)
  show "accounted (snd (consumer_iteration (d, p)))" if "accounted p"
    unfolding consumer_iteration_eq
    by (rule finish_ready_keeps(3) [OF r]) (simp add: take_keeps that)
qed

lemma start_fields [simp]:
  "queue (start p) = queue p" "stats (start p) = stats p" "in_flight (start p) = in_flight p"
  "unfinished_tasks (start p) = unfinished_tasks p" "dedup_store (start p) = dedup_store p"
  "processed_events (start p) = processed_events p"
  by (simp_all add: start_def)

lemma publish_fields [simp]:
  "queue (snd (publish events p)) = queue p @ events"
  "stats (snd (publish events p))
     = (stats p)\<lparr>received := received (stats p) + int (length events)\<rparr>"
  "in_flight (snd (publish events p)) = in_flight p"
  "unfinished_tasks (snd (publish events p)) = unfinished_tasks p + int (length events)"
  "dedup_store (snd (publish events p)) = dedup_store p"
  "processed_events (snd (publish events p)) = processed_events p"
  "consumer_task (snd (publish events p)) = consumer_task p"
  "running (snd (publish events p)) = running p"
  by (simp_all add: publish_eq)

lemma start_keeps [simp]:
  "bound (start p) = bound p" "exact (start p) = exact p" "accounted (start p) = accounted p"
  unfolding bound_def exact_def accounted_def counted_def holding_def by simp_all

lemma publish_keeps [simp]:
  "bound (snd (publish events p)) = bound p"
  "exact (snd (publish events p)) = exact p"
  "accounted (snd (publish events p)) = accounted p"
  unfolding bound_def exact_def accounted_def counted_def holding_def by auto

lemma exec_action_bound: "bound (snd dp) \<Longrightarrow> bound (snd (exec_action a dp))"
proof (cases dp)
  case (Pair d p)
  assume "bound (snd dp)"
  with Pair have b: "bound p" by simp
  show ?thesis
  proof (cases a)
    case Start
    with b Pair show ?thesis by simp
  next
    case (Publish events)
    with b Pair show ?thesis by simp
  next
    case Take
    with b Pair show ?thesis by (simp add: take_keeps)
  next
    case Finish
    with finish_bound [OF b, of d] Pair show ?thesis by simp
  next
    case Consume
    with consumer_iteration_bound [OF b, of d] b Pair show ?thesis
      by (simp add: consume_def)
  qed
qed

lemma exec_action_ready:
  assumes "ready (fst dp, dedup_store (snd dp))"
  shows "ready (fst (exec_action a dp), dedup_store (snd (exec_action a dp)))"
proof (cases dp)
  case (Pair d p)
  with assms have r: "ready (d, dedup_store p)" by simp
  show ?thesis
  proof (cases a)
    case Start
    with r Pair show ?thesis by simp
  next
    case (Publish events)
    with r Pair show ?thesis by simp
  next
    case Take
    with r Pair show ?thesis by simp
  next
    case Finish
    with finish_ready_keeps(1) [OF r] Pair show ?thesis by simp
  next
    case Consume
    with consumer_iteration_ready(1) [OF r] r Pair show ?thesis
      by (simp add: consume_def)
  qed
qed

lemma exec_action_exact:
  assumes "ready (fst dp, dedup_store (snd dp))" and "exact (snd dp)"
  shows "exact (snd (exec_action a dp))"
proof (cases dp)
  case (Pair d p)
  with assms have r: "ready (d, dedup_store p)" and e: "exact p" by simp_all
  show ?thesis
  proof (cases a)
    case Start
    with e Pair show ?thesis by simp
  next
    case (Publish events)
    with e Pair show ?thesis by simp
  next
    case Take
    with e Pair show ?thesis by (simp add: take_keeps)
  next
    case Finish
    with finish_ready_keeps(2) [OF r e] Pair show ?thesis by simp
  next
    case Consume
    with consumer_iteration_ready(2) [OF r e] e Pair show ?thesis
      by (simp add: consume_def)
  qed
qed

lemma exec_action_accounted:
  assumes "ready (fst dp, dedup_store (snd dp))" and "accounted (snd dp)"
  shows "accounted (snd (exec_action a dp))"
proof (cases dp)
  case (Pair d p)
  with assms have r: "ready (d, dedup_store p)" and e: "accounted p" by simp_all
  show ?thesis
  proof (cases a)
    case Start
    with e Pair show ?thesis by simp
  next
    case (Publish events)
    with e Pair show ?thesis by simp
  next
    case Take
    with e Pair show ?thesis by (simp add: take_keeps)
  next
    case Finish
    with finish_ready_keeps(3) [OF r e] Pair show ?thesis by simp
  next
    case Consume
    with consumer_iteration_ready(3) [OF r e] e Pair show ?thesis
      by (simp add: consume_def)
  qed
qed

lemma run_bound: "bound (snd dp) \<Longrightarrow> bound (snd (run acts dp))"
  by (induction acts arbitrary: dp) (simp_all add: exec_action_bound)

lemma run_ready:
  "ready (fst dp, dedup_store (snd dp)) \<Longrightarrow>
   ready (fst (run acts dp), dedup_store (snd (run acts dp)))"
  by (induction acts arbitrary: dp) (simp_all add: exec_action_ready)

lemma run_exact:
  "ready (fst dp, dedup_store (snd dp)) \<Longrightarrow> exact (snd dp) \<Longrightarrow> exact (snd (run acts dp))"
  by (induction acts arbitrary: dp) (simp_all add: exec_action_ready exec_action_exact)

lemma run_accounted:
  "ready (fst dp, dedup_store (snd dp)) \<Longrightarrow> accounted (snd dp) \<Longrightarrow>
   accounted (snd (run acts dp))"
  by (induction acts arbitrary: dp) (simp_all add: exec_action_ready exec_action_accounted)

lemma new_pipeline_facts [simp]:
  "fst (new_pipeline d s) = d"
  "dedup_store (snd (new_pipeline d s)) = s"
  "bound (snd (new_pipeline d s))"
  "exact (snd (new_pipeline d s))"
  "accounted (snd (new_pipeline d s))"
  by (simp_all add: new_pipeline_def EventProcessor_init_def bound_def exact_def accounted_def
      counted_def holding_def)

text \<open>The definitions that evaluate a pipeline on concrete events.\<close>

lemmas pipeline_defs =
  new_pipeline_def fresh_pipeline_def EventProcessor_init_def start_def publish_def put_def
  consume_def consumer_iteration_def take_def finish_def process_event_def task_done_def
  call_task_done_def join_returns_def counted_def holding_def

text \<open>
  C4, as stated, fails: a pipeline built on a ledger whose \<^verbatim>\<open>initialize\<close> was not
  called is started and given one event.  \<^verbatim>\<open>mark_processed\<close> raises, the
  consumer logs the exception and goes on; the queue is empty, the consumer holds no
  event, one event has been received, and neither counter has moved.
\<close>

theorem drained_queue_counters_differ:
  "queue (snd (run [Start, Publish [\<lparr>topic = ''T'', event_id = ''1'', timestamp = ''t'',
                                       source = ''s'', payload = ()\<rparr>], Consume]
                 (new_pipeline (\<lambda>p. None) (DedupStore_init ''a.db'')))) = []
   \<and> in_flight (snd (run [Start, Publish [\<lparr>topic = ''T'', event_id = ''1'', timestamp = ''t'',
                                       source = ''s'', payload = ()\<rparr>], Consume]
                 (new_pipeline (\<lambda>p. None) (DedupStore_init ''a.db'')))) = None
   \<and> received (stats (snd (run [Start, Publish [\<lparr>topic = ''T'', event_id = ''1'',
                     timestamp = ''t'', source = ''s'', payload = ()\<rparr>], Consume]
                 (new_pipeline (\<lambda>p. None) (DedupStore_init ''a.db''))))) = 1
   \<and> unique_processed (stats (snd (run [Start, Publish [\<lparr>topic = ''T'', event_id = ''1'',
                     timestamp = ''t'', source = ''s'', payload = ()\<rparr>], Consume]
                 (new_pipeline (\<lambda>p. None) (DedupStore_init ''a.db''))))) = 0
   \<and> duplicate_dropped (stats (snd (run [Start, Publish [\<lparr>topic = ''T'', event_id = ''1'',
                     timestamp = ''t'', source = ''s'', payload = ()\<rparr>], Consume]
                 (new_pipeline (\<lambda>p. None) (DedupStore_init ''a.db''))))) = 0
   \<and> received (stats (snd (run [Start, Publish [\<lparr>topic = ''T'', event_id = ''1'',
                     timestamp = ''t'', source = ''s'', payload = ()\<rparr>], Consume]
                 (new_pipeline (\<lambda>p. None) (DedupStore_init ''a.db'')))))
       \<noteq> unique_processed (stats (snd (run [Start, Publish [\<lparr>topic = ''T'', event_id = ''1'',
                     timestamp = ''t'', source = ''s'', payload = ()\<rparr>], Consume]
                 (new_pipeline (\<lambda>p. None) (DedupStore_init ''a.db'')))))
         + duplicate_dropped (stats (snd (run [Start, Publish [\<lparr>topic = ''T'',
                     event_id = ''1'', timestamp = ''t'', source = ''s'', payload = ()\<rparr>], Consume]
                 (new_pipeline (\<lambda>p. None) (DedupStore_init ''a.db'')))))"
  by (simp add: pipeline_defs ledger_defs)

lemma consumer_iteration_raise:
  assumes "in_flight p = None" and "queue p = ev # rest"
    and "mark_processed (topic ev) (event_id ev) (timestamp ev) (d, dedup_store p) = Inl e"
  shows "consumer_iteration (d, p) = (d, p\<lparr>queue := rest, in_flight := None\<rparr>)"
proof -
  from assms(1,2) have t: "take (d, p) = (d, p\<lparr>queue := rest, in_flight := Some ev\<rparr>)"
    by (simp add: take_def)
  have "finish (d, p\<lparr>queue := rest, in_flight := Some ev\<rparr>)
      = (d, p\<lparr>queue := rest, in_flight := Some ev\<rparr>\<lparr>in_flight := None\<rparr>)"
    by (rule finish_raise [where ev = ev and e = e]) (simp_all add: assms(3))
  with t show ?thesis
    by (simp add: consumer_iteration_def)
qed

text \<open>
  C4, amended.  After any sequence of calls of \<^verbatim>\<open>start\<close> and \<^verbatim>\<open>publish\<close> and
  steps of the consumer on a new pipeline, between two turns of the consumer or in
  the middle of one, \<^verbatim>\<open>received\<close> is at least
  \<^verbatim>\<open>unique_processed + duplicate_dropped\<close> plus the number of events in the queue
  plus the event, if any, that the consumer has taken and not finished.  When the
  ledger of the pipeline is ready the two are equal, and so
  \<^verbatim>\<open>received = unique_processed + duplicate_dropped\<close> whenever the queue is empty
  and the consumer holds no event.  An event for which \<^verbatim>\<open>mark_processed\<close> raises
  leaves the consumer's hands, and the queue when the turn is a whole one, with the
  counters, the log and the disk unchanged.
\<close>

theorem stats_additivity:
  "unique_processed (stats (snd (run acts (new_pipeline d s))))
     + duplicate_dropped (stats (snd (run acts (new_pipeline d s))))
     + int (length (queue (snd (run acts (new_pipeline d s)))))
     + holding (snd (run acts (new_pipeline d s)))
     \<le> received (stats (snd (run acts (new_pipeline d s))))
   \<and> (ready (d, s) \<longrightarrow>
        received (stats (snd (run acts (new_pipeline d s))))
          = unique_processed (stats (snd (run acts (new_pipeline d s))))
            + duplicate_dropped (stats (snd (run acts (new_pipeline d s))))
            + int (length (queue (snd (run acts (new_pipeline d s)))))
            + holding (snd (run acts (new_pipeline d s))))
   \<and> (ready (d, s) \<and> queue (snd (run acts (new_pipeline d s))) = []
        \<and> in_flight (snd (run acts (new_pipeline d s))) = None \<longrightarrow>
        received (stats (snd (run acts (new_pipeline d s))))
          = unique_processed (stats (snd (run acts (new_pipeline d s))))
            + duplicate_dropped (stats (snd (run acts (new_pipeline d s)))))
   \<and> (in_flight p = Some ev
        \<and> mark_processed (topic ev) (event_id ev) (timestamp ev) (d', dedup_store p) = Inl e
        \<longrightarrow> finish (d', p) = (d', p\<lparr>in_flight := None\<rparr>))
   \<and> (in_flight p = None \<and> queue p = ev # rest
        \<and> mark_processed (topic ev) (event_id ev) (timestamp ev) (d', dedup_store p) = Inl e
        \<longrightarrow> consumer_iteration (d', p) = (d', p\<lparr>queue := rest, in_flight := None\<rparr>))"
proof -
  let ?dp = "new_pipeline d s :: disk \<times> 'a EventProcessor"
  have b: "bound (snd (run acts ?dp))"
    by (rule run_bound) simp
  have e: "exact (snd (run acts ?dp))" if "ready (d, s)"
    using that by (intro run_exact) simp_all
  have h: "holding q = 0" if "in_flight q = None" for q :: "'a EventProcessor"
    using that by (simp add: holding_def)
  from b have 1: "unique_processed (stats (snd (run acts ?dp)))
     + duplicate_dropped (stats (snd (run acts ?dp)))
     + int (length (queue (snd (run acts ?dp))))
     + holding (snd (run acts ?dp))
     \<le> received (stats (snd (run acts ?dp)))"
    by (simp add: bound_def counted_def)
  have 2: "received (stats (snd (run acts ?dp)))
          = unique_processed (stats (snd (run acts ?dp)))
            + duplicate_dropped (stats (snd (run acts ?dp)))
            + int (length (queue (snd (run acts ?dp))))
            + holding (snd (run acts ?dp))" if "ready (d, s)"
    using e [OF that] by (simp add: exact_def counted_def)
  have 3: "received (stats (snd (run acts ?dp)))
          = unique_processed (stats (snd (run acts ?dp)))
            + duplicate_dropped (stats (snd (run acts ?dp)))"
    if "ready (d, s)" "queue (snd (run acts ?dp)) = []" "in_flight (snd (run acts ?dp)) = None"
    using 2 [OF that(1)] that(2) h [OF that(3)] by simp
  from 1 2 3 finish_raise [of p ev d' e] consumer_iteration_raise [of p ev rest d' e]
  show ?thesis
    by blast
qed

theorem stats_additivity_witness:
  "ready (initialize (\<lambda>p. None, DedupStore_init ''a.db''))
   \<and> queue (snd (run [Start, Publish [\<lparr>topic = ''T'', event_id = ''1'', timestamp = ''t'', source = ''s'', payload = ()\<rparr>,
                          \<lparr>topic = ''T'', event_id = ''1'', timestamp = ''u'', source = ''s'', payload = ()\<rparr>], Take, Finish, Consume]
           (new_pipeline (fst (initialize (\<lambda>p. None, DedupStore_init ''a.db'')))
              (snd (initialize (\<lambda>p. None, DedupStore_init ''a.db'')))))) = []
   \<and> in_flight (snd (run [Start, Publish [\<lparr>topic = ''T'', event_id = ''1'', timestamp = ''t'', source = ''s'', payload = ()\<rparr>,
                          \<lparr>topic = ''T'', event_id = ''1'', timestamp = ''u'', source = ''s'', payload = ()\<rparr>], Take, Finish, Consume]
           (new_pipeline (fst (initialize (\<lambda>p. None, DedupStore_init ''a.db'')))
              (snd (initialize (\<lambda>p. None, DedupStore_init ''a.db'')))))) = None
   \<and> stats (snd (run [Start, Publish [\<lparr>topic = ''T'', event_id = ''1'', timestamp = ''t'', source = ''s'', payload = ()\<rparr>,
                          \<lparr>topic = ''T'', event_id = ''1'', timestamp = ''u'', source = ''s'', payload = ()\<rparr>], Take, Finish, Consume]
           (new_pipeline (fst (initialize (\<lambda>p. None, DedupStore_init ''a.db'')))
              (snd (initialize (\<lambda>p. None, DedupStore_init ''a.db''))))))
       = \<lparr>received = 2, unique_processed = 1, duplicate_dropped = 1\<rparr>
   \<and> queue (snd (run [Start, Publish [\<lparr>topic = ''T'', event_id = ''1'', timestamp = ''t'', source = ''s'', payload = ()\<rparr>], Take]
           (new_pipeline (fst (initialize (\<lambda>p. None, DedupStore_init ''a.db'')))
              (snd (initialize (\<lambda>p. None, DedupStore_init ''a.db'')))))) = []
   \<and> holding (snd (run [Start, Publish [\<lparr>topic = ''T'', event_id = ''1'', timestamp = ''t'', source = ''s'', payload = ()\<rparr>], Take]
           (new_pipeline (fst (initialize (\<lambda>p. None, DedupStore_init ''a.db'')))
              (snd (initialize (\<lambda>p. None, DedupStore_init ''a.db'')))))) = 1
   \<and> stats (snd (run [Start, Publish [\<lparr>topic = ''T'', event_id = ''1'', timestamp = ''t'', source = ''s'', payload = ()\<rparr>], Take]
           (new_pipeline (fst (initialize (\<lambda>p. None, DedupStore_init ''a.db'')))
              (snd (initialize (\<lambda>p. None, DedupStore_init ''a.db''))))))
       = \<lparr>received = 1, unique_processed = 0, duplicate_dropped = 0\<rparr>
   \<and> mark_processed ''T'' ''1'' ''t'' (\<lambda>p. None, DedupStore_init ''a.db'') = Inl NotInitialized
   \<and> finish (\<lambda>p. None,
         (EventProcessor_init (DedupStore_init ''a.db''))
           \<lparr>in_flight := Some \<lparr>topic = ''T'', event_id = ''1'', timestamp = ''t'', source = ''s'', payload = ()\<rparr>\<rparr>)
       = (\<lambda>p. None, EventProcessor_init (DedupStore_init ''a.db''))
   \<and> consumer_iteration (\<lambda>p. None,
         (EventProcessor_init (DedupStore_init ''a.db''))
           \<lparr>queue := [\<lparr>topic = ''T'', event_id = ''1'', timestamp = ''t'', source = ''s'', payload = ()\<rparr>]\<rparr>)
       = (\<lambda>p. None, EventProcessor_init (DedupStore_init ''a.db''))"
  using stats_additivity
    [of "[Start, Publish [\<lparr>topic = ''T'', event_id = ''1'', timestamp = ''t'', source = ''s'', payload = ()\<rparr>,
                         \<lparr>topic = ''T'', event_id = ''1'', timestamp = ''u'', source = ''s'', payload = ()\<rparr>], Take, Finish, Consume]"
        "fst (initialize (\<lambda>p. None, DedupStore_init ''a.db''))"
        "snd (initialize (\<lambda>p. None, DedupStore_init ''a.db''))"
        "(EventProcessor_init (DedupStore_init ''a.db''))
           \<lparr>in_flight := Some \<lparr>topic = ''T'', event_id = ''1'', timestamp = ''t'', source = ''s'', payload = ()\<rparr>\<rparr>"
        "\<lparr>topic = ''T'', event_id = ''1'', timestamp = ''t'', source = ''s'', payload = ()\<rparr>"
        "\<lambda>p. None" NotInitialized "[]"]
    stats_additivity
    [of "[Start, Publish [\<lparr>topic = ''T'', event_id = ''1'', timestamp = ''t'', source = ''s'', payload = ()\<rparr>], Take]"
        "fst (initialize (\<lambda>p. None, DedupStore_init ''a.db''))"
        "snd (initialize (\<lambda>p. None, DedupStore_init ''a.db''))"
        "(EventProcessor_init (DedupStore_init ''a.db''))
           \<lparr>queue := [\<lparr>topic = ''T'', event_id = ''1'', timestamp = ''t'', source = ''s'', payload = ()\<rparr>]\<rparr>"
        "\<lparr>topic = ''T'', event_id = ''1'', timestamp = ''t'', source = ''s'', payload = ()\<rparr>"
        "\<lambda>p. None" NotInitialized "[]"]
  by (simp add: pipeline_defs ledger_defs)

lemma consumer_loop_add:
  "consumer_loop (m + k) dp = consumer_loop k (consumer_loop m dp)"
  by (induction m arbitrary: dp) simp_all

lemma consume_idle:
  "queue (snd dp) = [] \<Longrightarrow> in_flight (snd dp) = None \<Longrightarrow> consume dp = dp"
  by (cases dp) (simp add: consume_def consumer_iteration_def take_def finish_def)

lemma consumer_loop_idle:
  "queue (snd dp) = [] \<Longrightarrow> in_flight (snd dp) = None \<Longrightarrow> consumer_loop k dp = dp"
  by (induction k) (simp_all add: consume_idle)

text \<open>One whole turn on a ready ledger.\<close>

lemma consume_ready:
  assumes "ready (d, dedup_store p)" and "in_flight p = None" and "queue p = ev # rest"
    and "consumer_task p" and "running p"
  shows "ready (fst (consume (d, p)), dedup_store (snd (consume (d, p))))"
    and "rows (fst (consume (d, p)), dedup_store (snd (consume (d, p)))) =
         (if has_key (rows (d, dedup_store p)) (topic ev) (event_id ev)
          then rows (d, dedup_store p)
          else rows (d, dedup_store p) @ [(topic ev, event_id ev, timestamp ev)])"
    and "queue (snd (consume (d, p))) = rest"
    and "in_flight (snd (consume (d, p))) = None"
    and "stats (snd (consume (d, p))) =
         (if has_key (rows (d, dedup_store p)) (topic ev) (event_id ev)
          then (stats p)\<lparr>duplicate_dropped := duplicate_dropped (stats p) + 1\<rparr>
          else (stats p)\<lparr>unique_processed := unique_processed (stats p) + 1\<rparr>)"
    and "processed_events (snd (consume (d, p))) =
         (if has_key (rows (d, dedup_store p)) (topic ev) (event_id ev)
          then processed_events p else processed_events p @ [ev])"
    and "consumer_task (snd (consume (d, p)))"
    and "running (snd (consume (d, p)))"
proof -
  let ?q = "p\<lparr>queue := rest, in_flight := Some ev\<rparr>"
  from assms have c: "consume (d, p) = finish (d, ?q)"
    by (simp add: consume_def consumer_iteration_def take_def)
  from assms(1) have r: "ready (d, dedup_store ?q)" by simp
  have i: "in_flight ?q = Some ev" by simp
  note f = finish_ready [OF r i]
  from f(1) show "ready (fst (consume (d, p)), dedup_store (snd (consume (d, p))))"
    unfolding c .
  from f(2) show "rows (fst (consume (d, p)), dedup_store (snd (consume (d, p)))) =
         (if has_key (rows (d, dedup_store p)) (topic ev) (event_id ev)
          then rows (d, dedup_store p)
          else rows (d, dedup_store p) @ [(topic ev, event_id ev, timestamp ev)])"
    unfolding c by simp
  from f(3) show "queue (snd (consume (d, p))) = rest"
    unfolding c by simp
  from f(4) show "in_flight (snd (consume (d, p))) = None"
    unfolding c .
  from f(6) show "stats (snd (consume (d, p))) =
         (if has_key (rows (d, dedup_store p)) (topic ev) (event_id ev)
          then (stats p)\<lparr>duplicate_dropped := duplicate_dropped (stats p) + 1\<rparr>
          else (stats p)\<lparr>unique_processed := unique_processed (stats p) + 1\<rparr>)"
    unfolding c by simp
  from f(7) show "processed_events (snd (consume (d, p))) =
         (if has_key (rows (d, dedup_store p)) (topic ev) (event_id ev)
          then processed_events p else processed_events p @ [ev])"
    unfolding c by simp
  from f(8) assms(4) show "consumer_task (snd (consume (d, p)))"
    unfolding c by simp
  from f(9) assms(5) show "running (snd (consume (d, p)))"
    unfolding c by simp
qed

text \<open>
  On a ready ledger the consumer computes \<open>accepted\<close>: after as many turns as
  there are events in the queue, the queue is empty, the log has grown by the events
  accepted, and each event has been counted once.
\<close>

lemma drain_ready:
  assumes "ready (d, dedup_store p)" and "in_flight p = None"
    and "consumer_task p" and "running p"
  shows "queue (snd (consumer_loop (length (queue p)) (d, p))) = []
     \<and> in_flight (snd (consumer_loop (length (queue p)) (d, p))) = None
     \<and> processed_events (snd (consumer_loop (length (queue p)) (d, p)))
         = processed_events p @ accepted (rows (d, dedup_store p)) (queue p)
     \<and> unique_processed (stats (snd (consumer_loop (length (queue p)) (d, p))))
         = unique_processed (stats p)
           + int (length (accepted (rows (d, dedup_store p)) (queue p)))
     \<and> duplicate_dropped (stats (snd (consumer_loop (length (queue p)) (d, p))))
         = duplicate_dropped (stats p) + int (length (queue p))
           - int (length (accepted (rows (d, dedup_store p)) (queue p)))
     \<and> received (stats (snd (consumer_loop (length (queue p)) (d, p))))
         = received (stats p)"
  using assms
proof (induction "queue p" arbitrary: d p)
  case Nil
  then show ?case by simp
next
  case (Cons ev rest)
  from Cons.hyps(2) have q: "queue p = ev # rest" by simp
  obtain d1 p1 where c: "consume (d, p) = (d1, p1)" by (cases "consume (d, p)")
  note s = consume_ready [OF Cons.prems(1,2) q Cons.prems(3,4), unfolded c fst_conv snd_conv]
  from s(3) have h: "rest = queue p1" by simp
  from Cons.hyps(1) [OF h s(1) s(4) s(7) s(8)] s(2) s(5) s(6) h
  have ih: "queue (snd (consumer_loop (length rest) (d1, p1))) = []
     \<and> in_flight (snd (consumer_loop (length rest) (d1, p1))) = None
     \<and> processed_events (snd (consumer_loop (length rest) (d1, p1)))
         = processed_events p1 @ accepted (rows (d1, dedup_store p1)) rest
     \<and> unique_processed (stats (snd (consumer_loop (length rest) (d1, p1))))
         = unique_processed (stats p1) + int (length (accepted (rows (d1, dedup_store p1)) rest))
     \<and> duplicate_dropped (stats (snd (consumer_loop (length rest) (d1, p1))))
         = duplicate_dropped (stats p1) + int (length rest)
           - int (length (accepted (rows (d1, dedup_store p1)) rest))
     \<and> received (stats (snd (consumer_loop (length rest) (d1, p1))))
         = received (stats p1)"
    by simp
  have l: "consumer_loop (length (queue p)) (d, p) = consumer_loop (length rest) (d1, p1)"
    by (simp add: q c)
  show ?case
  proof (cases "has_key (rows (d, dedup_store p)) (topic ev) (event_id ev)")
    case True
    with ih s(2) s(5) s(6) show ?thesis
      unfolding l by (simp add: q)
  next
    case False
    with ih s(2) s(5) s(6) show ?thesis
      unfolding l by (simp add: q)
  qed
qed

lemma consume_accounted:
  assumes "ready (fst dp, dedup_store (snd dp))" and "accounted (snd dp)"
  shows "ready (fst (consume dp), dedup_store (snd (consume dp)))"
    and "accounted (snd (consume dp))"
  using exec_action_ready [OF assms(1), of Consume] exec_action_accounted [OF assms, of Consume]
  by simp_all

lemma consumer_loop_accounted:
  "ready (fst dp, dedup_store (snd dp)) \<Longrightarrow> accounted (snd dp) \<Longrightarrow>
   accounted (snd (consumer_loop n dp))"
  by (induction n arbitrary: dp) (simp_all add: consume_accounted)

lemma has_key_Cons [simp]:
  "has_key ((tp', eid', ts) # t) tp eid = ((tp = tp' \<and> eid = eid') \<or> has_key t tp eid)"
  by (auto simp: has_key_def row_key_def)

lemma accepted_five:
  "accepted [] [e1\<lparr>topic := T, event_id := ''1''\<rparr>, e2\<lparr>topic := T, event_id := ''2''\<rparr>,
                e3\<lparr>topic := T, event_id := ''1''\<rparr>, e4\<lparr>topic := T, event_id := ''3''\<rparr>,
                e5\<lparr>topic := T, event_id := ''2''\<rparr>]
   = [e1\<lparr>topic := T, event_id := ''1''\<rparr>, e2\<lparr>topic := T, event_id := ''2''\<rparr>,
      e4\<lparr>topic := T, event_id := ''3''\<rparr>]"
  by simp

text \<open>
  C5.  A new pipeline is started on a ledger newly initialized where there was no
  database; five events with the topic \<open>T\<close> and the ids 1, 2, 1, 3, 2 are published
  in one batch.  After five turns of the consumer, and after any number of further
  turns, the queue is empty, the counters are 5, 3 and 2, and the log holds the first,
  second and fourth event, with the ids 1, 2, 3 in this order.
\<close>

theorem five_events_scenario:
  "(let final = consumer_loop (5 + k)
        (exec_action (Publish [e1\<lparr>topic := T, event_id := ''1''\<rparr>,
                               e2\<lparr>topic := T, event_id := ''2''\<rparr>,
                               e3\<lparr>topic := T, event_id := ''1''\<rparr>,
                               e4\<lparr>topic := T, event_id := ''3''\<rparr>,
                               e5\<lparr>topic := T, event_id := ''2''\<rparr>])
           (fresh_pipeline path))
    in queue (snd final) = []
     \<and> stats (snd final) = \<lparr>received = 5, unique_processed = 3, duplicate_dropped = 2\<rparr>
     \<and> processed_events (snd final)
         = [e1\<lparr>topic := T, event_id := ''1''\<rparr>, e2\<lparr>topic := T, event_id := ''2''\<rparr>,
            e4\<lparr>topic := T, event_id := ''3''\<rparr>]
     \<and> map event_id (processed_events (snd final)) = [''1'', ''2'', ''3'']
     \<and> join_returns (snd final))"
proof -
  let ?evs = "[e1\<lparr>topic := T, event_id := ''1''\<rparr>, e2\<lparr>topic := T, event_id := ''2''\<rparr>,
               e3\<lparr>topic := T, event_id := ''1''\<rparr>, e4\<lparr>topic := T, event_id := ''3''\<rparr>,
               e5\<lparr>topic := T, event_id := ''2''\<rparr>]"
  obtain d s where i: "initialize (\<lambda>p. None, DedupStore_init path) = (d, s)"
    by (cases "initialize (\<lambda>p. None, DedupStore_init path)")
  from ready_initialize_fresh [of path] rows_initialize_fresh [of path]
  have r: "ready (d, s)" and w: "rows (d, s) = []"
    unfolding i by simp_all
  let ?p1 = "snd (publish ?evs (start (EventProcessor_init s)))"
  have st: "exec_action (Publish ?evs) (fresh_pipeline path) = (d, ?p1)"
    by (simp add: fresh_pipeline_def i)
  have f: "dedup_store ?p1 = s" "in_flight ?p1 = None" "consumer_task ?p1" "running ?p1"
    "queue ?p1 = ?evs" "processed_events ?p1 = []"
    "stats ?p1 = \<lparr>received = 5, unique_processed = 0, duplicate_dropped = 0\<rparr>"
    "unfinished_tasks ?p1 = 5"
    by (simp_all add: EventProcessor_init_def start_def)
  have a: "accounted ?p1"
    unfolding accounted_def holding_def f by simp
  let ?r = "consumer_loop 5 (d, ?p1)"
  from r f(1) have r1: "ready (d, dedup_store ?p1)" by simp
  have n5: "length (queue ?p1) = 5"
    unfolding f by simp
  have rw: "rows (d, dedup_store ?p1) = []"
    unfolding f w ..
  have acc: "accepted (rows (d, dedup_store ?p1)) (queue ?p1)
      = [e1\<lparr>topic := T, event_id := ''1''\<rparr>, e2\<lparr>topic := T, event_id := ''2''\<rparr>,
         e4\<lparr>topic := T, event_id := ''3''\<rparr>]"
    unfolding f w by (rule accepted_five)
  note dr0 = drain_ready [OF r1 f(2) f(3) f(4), unfolded acc n5 f(6) f(7)]
  from dr0 have dr: "queue (snd ?r) = []" "in_flight (snd ?r) = None"
    "processed_events (snd ?r) = [e1\<lparr>topic := T, event_id := ''1''\<rparr>,
       e2\<lparr>topic := T, event_id := ''2''\<rparr>, e4\<lparr>topic := T, event_id := ''3''\<rparr>]"
    "unique_processed (stats (snd ?r)) = 3"
    "duplicate_dropped (stats (snd ?r)) = 2"
    "received (stats (snd ?r)) = 5"
    by simp_all
  from r1 a have "accounted (snd ?r)"
    by (intro consumer_loop_accounted) simp_all
  with dr(1,2) have u: "unfinished_tasks (snd ?r) = 0"
    by (simp add: accounted_def holding_def)
  have fin: "consumer_loop (5 + k) (d, ?p1) = ?r"
    unfolding consumer_loop_add using dr(1,2) by (rule consumer_loop_idle)
  have "stats (snd ?r) = \<lparr>received = 5, unique_processed = 3, duplicate_dropped = 2\<rparr>"
    using dr(4,5,6) by (cases "stats (snd ?r)") simp
  with dr u show ?thesis
    unfolding Let_def st fin by (simp add: join_returns_def)
qed

text \<open>
  C7 fails on the code.  A pipeline on a ledger whose \<^verbatim>\<open>initialize\<close> was not
  called is started and given one event.  The consumer takes the event,
  \<^verbatim>\<open>mark_processed\<close> raises, and \<^verbatim>\<open>task_done()\<close> is not reached: after the
  first turn and after any number of further turns the queue is empty and one task is
  still unfinished, so the \<^verbatim>\<open>join\<close> that \<^verbatim>\<open>stop\<close> waits for never returns.
\<close>

theorem task_done_skipped_when_processing_raises:
  "queue (snd (consumer_loop (Suc n)
      (run [Start, Publish [\<lparr>topic = ''T'', event_id = ''1'', timestamp = ''t'',
                             source = ''s'', payload = ()\<rparr>]]
         (new_pipeline (\<lambda>p. None) (DedupStore_init ''a.db''))))) = []
   \<and> unfinished_tasks (snd (consumer_loop (Suc n)
      (run [Start, Publish [\<lparr>topic = ''T'', event_id = ''1'', timestamp = ''t'',
                             source = ''s'', payload = ()\<rparr>]]
         (new_pipeline (\<lambda>p. None) (DedupStore_init ''a.db''))))) = 1
   \<and> \<not> join_returns (snd (consumer_loop (Suc n)
      (run [Start, Publish [\<lparr>topic = ''T'', event_id = ''1'', timestamp = ''t'',
                             source = ''s'', payload = ()\<rparr>]]
         (new_pipeline (\<lambda>p. None) (DedupStore_init ''a.db'')))))"
proof -
  let ?st = "run [Start, Publish [\<lparr>topic = ''T'', event_id = ''1'', timestamp = ''t'',
                             source = ''s'', payload = ()\<rparr>]]
         (new_pipeline (\<lambda>p. None) (DedupStore_init ''a.db''))"
  let ?p = "\<lparr>dedup_store = \<lparr>db_path = ''a.db'', db = None\<rparr>, queue = [],
            unfinished_tasks = 1, in_flight = None, processed_events = [],
            stats = \<lparr>received = 1, unique_processed = 0, duplicate_dropped = 0\<rparr>,
            consumer_task = True, running = True\<rparr>"
  have "consume ?st = (\<lambda>p. None, ?p)"
    by (simp add: pipeline_defs ledger_defs)
  then have "consumer_loop (Suc n) ?st = (\<lambda>p. None, ?p)"
    by (simp add: consumer_loop_idle)
  then show ?thesis
    by (simp add: join_returns_def)
qed

text \<open>
  On a pipeline whose ledger is ready, \<^verbatim>\<open>join\<close> returns exactly in the states
  where the queue is empty and the consumer holds no event.
\<close>

theorem join_returns_iff_idle:
  assumes "ready (d, s)"
  shows "join_returns (snd (run acts (new_pipeline d s)))
         \<longleftrightarrow> queue (snd (run acts (new_pipeline d s))) = []
             \<and> in_flight (snd (run acts (new_pipeline d s))) = None"
proof -
  let ?dp = "new_pipeline d s :: disk \<times> 'a EventProcessor"
  from assms have "accounted (snd (run acts ?dp))"
    by (intro run_accounted) simp_all
  then show ?thesis
    by (auto simp: join_returns_def accounted_def holding_def split: option.splits)
qed

theorem join_returns_iff_idle_witness:
  "ready (initialize (\<lambda>p. None, DedupStore_init ''a.db''))
   \<and> join_returns (snd (run [Start, Publish [\<lparr>topic = ''T'', event_id = ''1'',
           timestamp = ''t'', source = ''s'', payload = ()\<rparr>], Consume]
         (new_pipeline (fst (initialize (\<lambda>p. None, DedupStore_init ''a.db'')))
            (snd (initialize (\<lambda>p. None, DedupStore_init ''a.db''))))))
   \<and> queue (snd (run [Start, Publish [\<lparr>topic = ''T'', event_id = ''1'',
           timestamp = ''t'', source = ''s'', payload = ()\<rparr>], Consume]
         (new_pipeline (fst (initialize (\<lambda>p. None, DedupStore_init ''a.db'')))
            (snd (initialize (\<lambda>p. None, DedupStore_init ''a.db'')))))) = []"
  using join_returns_iff_idle
    [of "fst (initialize (\<lambda>p. None, DedupStore_init ''a.db''))"
        "snd (initialize (\<lambda>p. None, DedupStore_init ''a.db''))"
        "[Start, Publish [\<lparr>topic = ''T'', event_id = ''1'', timestamp = ''t'',
                          source = ''s'', payload = ()\<rparr>], Consume]"]
  by (simp add: pipeline_defs ledger_defs)

end
